theory Spec2Isabelle
  imports Complex_Main "HOL-Library.Sublist" "HOL-Library.List_Lexorder"
    "HOL-Library.Product_Lexorder" "HOL-Library.AList"
begin

section \<open>Python strings\<close>

text \<open>
  A Python \<open>str\<close> is a sequence of Unicode code points: \<open>len\<close> counts code points and
  comparison is lexicographic on them. The source uses characters beyond Latin-1 (the arrow
  of the glossary lines), so a string is modelled as the list of its code points.
  \<open>str\<close> embeds an ASCII literal.
\<close>

type_synonym pystr = "nat list"

definition str :: "string \<Rightarrow> pystr" where
  "str s = map of_char s"

definition NL :: nat where
  "NL = 10"

definition SP :: nat where
  "SP = 32"

text \<open>\<open>str.isspace\<close> on one code point: the Unicode white space that \<open>str.strip()\<close> removes.\<close>

definition isspace :: "nat \<Rightarrow> bool" where
  "isspace c = ((9 \<le> c \<and> c \<le> 13) \<or> (28 \<le> c \<and> c \<le> 32) \<or> c = 133 \<or> c = 160
      \<or> c = 5760 \<or> (8192 \<le> c \<and> c \<le> 8202) \<or> c = 8232 \<or> c = 8233 \<or> c = 8239
      \<or> c = 8287 \<or> c = 12288)"

definition strip :: "pystr \<Rightarrow> pystr" where
  "strip s = rev (dropWhile isspace (rev (dropWhile isspace s)))"

text \<open>
  \<open>s.split(sep)\<close>: the pieces between the non-overlapping occurrences of \<open>sep\<close>, found left
  to right. \<open>acc\<close> holds the current piece, reversed. Python raises ValueError for an
  empty separator; both separators of the source are non-empty constants.
\<close>

fun split_from :: "pystr \<Rightarrow> pystr \<Rightarrow> pystr \<Rightarrow> pystr list" where
  "split_from sep acc [] = [rev acc]"
| "split_from sep acc (c # cs) =
     (if sep \<noteq> [] \<and> prefix sep (c # cs)
      then rev acc # split_from sep [] (drop (length sep) (c # cs))
      else split_from sep (c # acc) cs)"

definition split_str :: "pystr \<Rightarrow> pystr \<Rightarrow> pystr list" where
  "split_str sep s = split_from sep [] s"

text \<open>\<open>sep.join(xs)\<close>.\<close>

fun join :: "pystr \<Rightarrow> pystr list \<Rightarrow> pystr" where
  "join sep [] = []"
| "join sep [x] = x"
| "join sep (x # y # ys) = x @ sep @ join sep (y # ys)"

text \<open>\<open>s.replace(a, b)\<close> for one-character \<open>a\<close> and \<open>b\<close>.\<close>

definition replace_char :: "nat \<Rightarrow> nat \<Rightarrow> pystr \<Rightarrow> pystr" where
  "replace_char a b s = map (\<lambda>c. if c = a then b else c) s"

text \<open>\<open>sub in s\<close> on strings: \<open>sub\<close> occurs in \<open>s\<close> as a contiguous run.\<close>

fun contains :: "pystr \<Rightarrow> pystr \<Rightarrow> bool" where
  "contains [] sub = (sub = [])"
| "contains (c # cs) sub = (prefix sub (c # cs) \<or> contains cs sub)"

definition startswith :: "pystr \<Rightarrow> pystr \<Rightarrow> bool" where
  "startswith s p = prefix p s"

section \<open>Batch reassembly\<close>

definition PARA_DELIMITER :: pystr where
  "PARA_DELIMITER = str ''|||PARA|||''"

text \<open>
  Line 370 of \<open>_translate_batch\<close>:
  \<^verbatim>\<open>parts = [p.strip().replace("\n", " ") for p in translation.split(PARA_DELIMITER) if p.strip()]\<close>
\<close>

definition batch_parts :: "pystr \<Rightarrow> pystr list" where
  "batch_parts translation =
     map (\<lambda>p. replace_char NL SP (strip p))
       (filter (\<lambda>p. strip p \<noteq> []) (split_str PARA_DELIMITER translation))"

text \<open>
  Lines 372 to 381 of \<open>_translate_batch\<close>, the reassembly of the paragraphs.
  \<open>paragraphs = text.split("\n")\<close> is never empty, so \<open>para_count - 1\<close> is never negative
  and the slices are \<open>take\<close> and \<open>drop\<close>.
\<close>

definition reassemble :: "pystr \<Rightarrow> pystr \<Rightarrow> pystr" where
  "reassemble text translation =
     (let paragraphs = split_str [NL] text;
          para_count = length paragraphs;
          parts = batch_parts translation
      in if length parts = para_count then join [NL] parts
         else if length parts > para_count then
           join [NL] (take (para_count - 1) parts @ [join [SP] (drop (para_count - 1) parts)])
         else join [NL] (take para_count (parts @ drop (length parts) paragraphs)))"

section \<open>The completion call and the translator's state\<close>

text \<open>
  The exceptions of the model. \<open>ClientError ty msg\<close> is an exception raised by
  \<open>client.messages.create\<close>, with \<open>type(e).__name__ = ty\<close> and \<open>str(e) = msg\<close>.
\<close>

datatype py_exception =
    ClientError pystr pystr
  | ZeroDivisionError
  | IndexError
  | JSONDecodeError
  | FileNotFoundError
  | RuntimeError

text \<open>
  What a request carries: which system prompt template it is built from (\<open>SYSTEM_TRANSLATE\<close>,
  \<open>SYSTEM_REVIEW\<close>, \<open>SYSTEM_REFINE\<close>, \<open>SYSTEM_CONTEXT\<close>, \<open>SYSTEM_GLOSSARY\<close>) and the
  values substituted into the system prompt and the user message. The batch instruction
  is represented by the paragraph count it names. The style, language and protected-noun
  fields of the templates are left out.
\<close>

datatype prompt =
    TranslateReq (req_glossary: pystr) (req_context: pystr) (req_batch: "nat option") (req_text: pystr)
  | ReviewReq pystr bool pystr pystr
  | RefineReq pystr "nat option" pystr pystr pystr
  | ContextReq pystr pystr pystr
  | GlossaryReq pystr pystr

record request =
  prompt :: prompt
  temperature :: real
  max_tokens :: nat
  use_cache :: bool

record usage =
  input_tokens :: nat
  output_tokens :: nat
  cache_read_input_tokens :: "nat option"
  cache_creation_input_tokens :: "nat option"

datatype block = Block (block_type: pystr) (block_text: pystr)

record response =
  content :: "block list"
  usage :: usage

datatype outcome = Respond response | Raise pystr pystr

text \<open>
  The external service: what the \<open>i\<close>-th invocation of \<open>client.messages.create\<close> does
  with the request it is given.
\<close>

type_synonym client = "nat \<Rightarrow> request \<Rightarrow> outcome"

text \<open>
  The fields of a \<open>Claude3Pass\<close> instance that the dispatch and rolling-state engine reads
  or writes. The glossary is a dict: an association list with one entry for each key.
  The last three fields are the environment: how many times the client has been invoked,
  the seconds slept by \<open>time.sleep\<close>, and every finished \<open>_api_call\<close> with its result.
\<close>

record translator =
  profile_name :: pystr
  style_instructions :: pystr
  protected_nouns :: "pystr list"
  source_language :: pystr
  skip_review :: bool
  temp_translate :: real
  temp_review :: real
  temp_refine :: real
  min_review_chars :: int
  context_update_interval :: int
  glossary_update_interval :: int
  glossary :: "(pystr \<times> pystr) list"
  context_summary :: pystr
  context_flag :: bool
  total_input_tokens :: nat
  total_output_tokens :: nat
  total_cache_read_tokens :: nat
  total_cache_create_tokens :: nat
  total_requests :: nat
  pass1_only_count :: nat
  full_3pass_count :: nat
  reviews_ok :: nat
  reviews_fixed :: nat
  chunk_counter :: nat
  glossary_extract_failures :: nat
  attempts :: nat
  sleep_log :: "nat list"
  call_log :: "(request \<times> (py_exception + pystr)) list"

text \<open>\<open>__init__\<close>, with the source language already resolved.\<close>

definition DEFAULT_MIN_REVIEW_CHARS :: int where
  "DEFAULT_MIN_REVIEW_CHARS = 300"

definition DEFAULT_CONTEXT_INTERVAL :: int where
  "DEFAULT_CONTEXT_INTERVAL = 15"

definition DEFAULT_GLOSSARY_INTERVAL :: int where
  "DEFAULT_GLOSSARY_INTERVAL = 20"

definition init :: "bool \<Rightarrow> bool \<Rightarrow> pystr \<Rightarrow> translator" where
  "init ctx_flag skip src_lang =
     \<lparr> profile_name = str ''Default'',
       style_instructions = str ''- Produce natural, fluent literary prose in the target language'',
       protected_nouns = [],
       source_language = src_lang,
       skip_review = skip,
       temp_translate = 0.3, temp_review = 0.4, temp_refine = 0.2,
       min_review_chars = DEFAULT_MIN_REVIEW_CHARS,
       context_update_interval = DEFAULT_CONTEXT_INTERVAL,
       glossary_update_interval = DEFAULT_GLOSSARY_INTERVAL,
       glossary = [],
       context_summary = [],
       context_flag = ctx_flag,
       total_input_tokens = 0, total_output_tokens = 0,
       total_cache_read_tokens = 0, total_cache_create_tokens = 0,
       total_requests = 0,
       pass1_only_count = 0, full_3pass_count = 0,
       reviews_ok = 0, reviews_fixed = 0,
       chunk_counter = 0,
       glossary_extract_failures = 0,
       attempts = 0, sleep_log = [], call_log = [] \<rparr>"

subsection \<open>\<open>_api_call\<close>\<close>

text \<open>
  \<open>str.lower\<close>, on the ASCII letters. No character outside ASCII lowers to one of the
  letters of \<open>rate\<close>, the only string searched for in a lowered text.
\<close>

definition lower :: "pystr \<Rightarrow> pystr" where
  "lower s = map (\<lambda>c. if 65 \<le> c \<and> c \<le> 90 then c + 32 else c) s"

text \<open>Line 564: the seconds to wait after failed attempt number \<open>attempt\<close>.\<close>

definition backoff_wait :: "nat \<Rightarrow> pystr \<Rightarrow> pystr \<Rightarrow> nat" where
  "backoff_wait attempt err msg =
     min 60 (2 ^ attempt *
       (if contains err (str ''RateLimit'') \<or> contains (lower msg) (str ''rate'') then 5 else 3))"

text \<open>Line 559: the text blocks of the response, concatenated.\<close>

definition response_text :: "response \<Rightarrow> pystr" where
  "response_text r = concat (map block_text (filter (\<lambda>b. block_type b = str ''text'') (content r)))"

text \<open>
  Lines 539 to 569: \<open>for attempt in range(retries)\<close>, as recursion over the list of the
  attempt numbers still to run.
\<close>

fun api_loop ::
  "client \<Rightarrow> request \<Rightarrow> nat \<Rightarrow> nat list \<Rightarrow> translator \<Rightarrow> (py_exception + pystr) \<times> translator"
where
  "api_loop cl req retries [] s = (Inl RuntimeError, s)"
| "api_loop cl req retries (attempt # rest) s =
     (let s1 = s\<lparr>attempts := attempts s + 1\<rparr> in
      case cl (attempts s) req of
        Respond r \<Rightarrow>
          (Inr (response_text r),
           s1\<lparr>total_input_tokens := total_input_tokens s1 + input_tokens (usage r),
              total_output_tokens := total_output_tokens s1 + output_tokens (usage r),
              total_cache_read_tokens := total_cache_read_tokens s1
                + (case cache_read_input_tokens (usage r) of None \<Rightarrow> 0 | Some n \<Rightarrow> n),
              total_cache_create_tokens := total_cache_create_tokens s1
                + (case cache_creation_input_tokens (usage r) of None \<Rightarrow> 0 | Some n \<Rightarrow> n),
              total_requests := total_requests s1 + 1\<rparr>)
      | Raise err msg \<Rightarrow>
          if attempt < retries - 1
          then api_loop cl req retries rest
                 (s1\<lparr>sleep_log := sleep_log s1 @ [backoff_wait attempt err msg]\<rparr>)
          else (Inl (ClientError err msg), s1))"

definition api_call ::
  "client \<Rightarrow> request \<Rightarrow> nat \<Rightarrow> translator \<Rightarrow> (py_exception + pystr) \<times> translator"
where
  "api_call cl req retries s =
     (case api_loop cl req retries [0..<retries] s of
        (r, s') \<Rightarrow> (r, s'\<lparr>call_log := call_log s' @ [(req, r)]\<rparr>))"

subsection \<open>The glossary snapshot and the three passes\<close>

text \<open>\<open>a or b\<close> on strings.\<close>

definition py_or :: "pystr \<Rightarrow> pystr \<Rightarrow> pystr" where
  "py_or a b = (if a = [] then b else a)"

text \<open>The f-string of line 513; 8594 is the arrow.\<close>

definition glossary_line :: "pystr \<times> pystr \<Rightarrow> pystr" where
  "glossary_line e = str ''  '' @ fst e @ [SP, 8594, SP] @ snd e"

text \<open>
  \<open>_format_glossary\<close>. \<open>sorted(self.glossary.items())\<close> sorts the pairs lexicographically,
  which is the order of the keys, since the keys of a dict are distinct.
\<close>

definition format_glossary :: "translator \<Rightarrow> pystr" where
  "format_glossary s =
     (if glossary s = [] then []
      else let lines = map glossary_line
                 (filter (\<lambda>e. \<not> startswith (fst e) (str ''_'')) (sort (glossary s)))
           in join [NL] (take 60 lines))"

definition pass1 ::
  "client \<Rightarrow> pystr \<Rightarrow> nat option \<Rightarrow> translator \<Rightarrow> (py_exception + pystr) \<times> translator"
where
  "pass1 cl text batch_instruction s =
     api_call cl
       \<lparr> prompt = TranslateReq
           (py_or (format_glossary s) (str ''(none yet '' @ [8212] @ str '' beginning of book)''))
           (py_or (context_summary s) (str ''(beginning of text)''))
           batch_instruction text,
         temperature = temp_translate s, max_tokens = 8192, use_cache = True \<rparr> 5 s"

definition pass2 ::
  "client \<Rightarrow> pystr \<Rightarrow> pystr \<Rightarrow> bool \<Rightarrow> translator \<Rightarrow> (py_exception + pystr) \<times> translator"
where
  "pass2 cl original translation is_batch s =
     api_call cl
       \<lparr> prompt = ReviewReq (py_or (format_glossary s) (str ''(empty)'')) is_batch
           original translation,
         temperature = temp_review s, max_tokens = 8192, use_cache = True \<rparr> 5 s"

definition pass3 ::
  "client \<Rightarrow> pystr \<Rightarrow> pystr \<Rightarrow> pystr \<Rightarrow> nat option \<Rightarrow> translator
     \<Rightarrow> (py_exception + pystr) \<times> translator"
where
  "pass3 cl original translation review batch_instruction s =
     api_call cl
       \<lparr> prompt = RefineReq (py_or (format_glossary s) (str ''(empty)'')) batch_instruction
           original translation review,
         temperature = temp_refine s, max_tokens = 8192, use_cache = True \<rparr> 5 s"

text \<open>\<open>_is_quality_ok\<close>; 196 is the A with diaeresis of the third spelling.\<close>

definition is_quality_ok :: "pystr \<Rightarrow> bool" where
  "is_quality_ok review =
     (\<exists>tag \<in> set [str ''QUALITY_OK'', str ''QUALITAET_OK'', str ''QUALIT'' @ [196] @ str ''T_OK''].
        contains review tag)"

subsection \<open>The rolling state: context summary and glossary\<close>

text \<open>What \<open>json.loads\<close> returns. An object is a dict, given by its items.\<close>

datatype json =
    JNull
  | JBool bool
  | JInt int
  | JFloat real
  | JString pystr
  | JArray "json list"
  | JObject "(pystr \<times> json) list"

text \<open>\<open>d.update(items)\<close> on a dict: each key is replaced in place or appended.\<close>

definition dict_update :: "(pystr \<times> pystr) list \<Rightarrow> (pystr \<times> pystr) list \<Rightarrow> (pystr \<times> pystr) list" where
  "dict_update d items = fold (\<lambda>kv. AList.update (fst kv) (snd kv)) items d"

text \<open>
  Lines 459 to 472, the first statement of \<open>_maybe_update_context_glossary\<close>. The
  condition is outside the \<open>try\<close>: with \<open>context_flag\<close> set, an interval of 0 raises
  ZeroDivisionError.
\<close>

definition context_refresh ::
  "client \<Rightarrow> pystr \<Rightarrow> pystr \<Rightarrow> translator \<Rightarrow> (py_exception + unit) \<times> translator"
where
  "context_refresh cl original translation s =
     (if \<not> context_flag s then (Inr (), s)
      else if context_update_interval s = 0 then (Inl ZeroDivisionError, s)
      else if int (chunk_counter s) mod context_update_interval s \<noteq> 0 then (Inr (), s)
      else
        let prev = context_summary s;
            msg = (if prev \<noteq> [] then ContextReq prev (take 1500 original) (take 1500 translation)
                   else ContextReq [] (take 2000 original) (take 2000 translation))
        in case api_call cl \<lparr> prompt = msg, temperature = 0.3, max_tokens = 512,
                               use_cache = False \<rparr> 5 s of
             (Inr summary, s1) \<Rightarrow> (Inr (), s1\<lparr>context_summary := summary\<rparr>)
           | (Inl e, s1) \<Rightarrow> (Inr (), s1))"

text \<open>
  Lines 484 to 486: the response stripped, and its code fence removed.
  \<open>resp.split("\n", 1)[1]\<close> is the text after the first newline, and raises IndexError
  when there is none; \<open>.rsplit("```", 1)[0]\<close> is the text before the last fence, or all of
  it when there is none.
\<close>

definition before_last :: "pystr \<Rightarrow> pystr \<Rightarrow> pystr" where
  "before_last s sep =
     (case filter (\<lambda>i. prefix sep (drop i s)) (rev [0..<Suc (length s)]) of
        [] \<Rightarrow> s
      | i # _ \<Rightarrow> take i s)"

definition unfence :: "pystr \<Rightarrow> py_exception + pystr" where
  "unfence resp0 =
     (let resp = strip resp0
      in if startswith resp (str ''```'') then
           (if NL \<in> set resp
            then Inr (before_last (tl (dropWhile (\<lambda>c. c \<noteq> NL) resp)) (str ''```''))
            else Inl IndexError)
         else Inr resp)"

text \<open>Lines 490 to 493: the pairs that survive the filter, as a dict.\<close>

definition valid_terms :: "(pystr \<times> json) list \<Rightarrow> (pystr \<times> pystr) list" where
  "valid_terms items =
     dict_update []
       (concat (map (\<lambda>kv. case snd kv of
                        JString v \<Rightarrow>
                          (if length (fst kv) < 100 \<and> length v < 200
                              \<and> \<not> startswith (fst kv) (str ''_'')
                           then [(fst kv, v)] else [])
                      | _ \<Rightarrow> []) items))"

text \<open>
  Lines 484 to 507: what the \<open>try\<close> block does with the response of the extraction call,
  and its two handlers. \<open>loads\<close> is \<open>json.loads\<close>.
\<close>

definition merge_response ::
  "(pystr \<Rightarrow> py_exception + json) \<Rightarrow> pystr \<Rightarrow> translator \<Rightarrow> translator"
where
  "merge_response loads resp s =
     (case unfence resp of
        Inl e \<Rightarrow> s\<lparr>glossary_extract_failures := glossary_extract_failures s + 1\<rparr>
      | Inr body \<Rightarrow>
         (case loads body of
            Inl e \<Rightarrow> s\<lparr>glossary_extract_failures := glossary_extract_failures s + 1\<rparr>
          | Inr new_terms \<Rightarrow>
             (case new_terms of
                JObject items \<Rightarrow>
                  (let valid = valid_terms items
                   in if valid \<noteq> [] then s\<lparr>glossary := dict_update (glossary s) valid\<rparr> else s)
              | _ \<Rightarrow> s)))"

text \<open>
  Lines 474 to 507, the second statement of \<open>_maybe_update_context_glossary\<close>. The
  condition is outside the \<open>try\<close>.
\<close>

definition glossary_refresh ::
  "(pystr \<Rightarrow> py_exception + json) \<Rightarrow> client \<Rightarrow> pystr \<Rightarrow> pystr \<Rightarrow> translator
     \<Rightarrow> (py_exception + unit) \<times> translator"
where
  "glossary_refresh loads cl original translation s =
     (if glossary_update_interval s = 0 then (Inl ZeroDivisionError, s)
      else if int (chunk_counter s) mod glossary_update_interval s \<noteq> 0 then (Inr (), s)
      else
        case api_call cl \<lparr> prompt = GlossaryReq (take 2000 original) (take 2000 translation),
                            temperature = 0.1, max_tokens = 1024, use_cache = False \<rparr> 5 s of
          (Inl e, s1) \<Rightarrow>
            (Inr (), s1\<lparr>glossary_extract_failures := glossary_extract_failures s1 + 1\<rparr>)
        | (Inr resp, s1) \<Rightarrow> (Inr (), merge_response loads resp s1))"

definition maybe_update_context_glossary ::
  "(pystr \<Rightarrow> py_exception + json) \<Rightarrow> client \<Rightarrow> pystr \<Rightarrow> pystr \<Rightarrow> translator
     \<Rightarrow> (py_exception + unit) \<times> translator"
where
  "maybe_update_context_glossary loads cl original translation s =
     (case context_refresh cl original translation s of
        (Inl e, s1) \<Rightarrow> (Inl e, s1)
      | (Inr u, s1) \<Rightarrow> glossary_refresh loads cl original translation s1)"

subsection \<open>The three modes and the dispatcher\<close>

text \<open>Printing (\<open>rprint\<close>, \<open>_print_stats\<close>) changes nothing and is left out.\<close>

definition translate_pass1_only ::
  "(pystr \<Rightarrow> py_exception + json) \<Rightarrow> client \<Rightarrow> pystr \<Rightarrow> translator
     \<Rightarrow> (py_exception + pystr) \<times> translator"
where
  "translate_pass1_only loads cl text s =
     (case pass1 cl text None (s\<lparr>pass1_only_count := pass1_only_count s + 1\<rparr>) of
        (Inl e, s1) \<Rightarrow> (Inl e, s1)
      | (Inr translation, s1) \<Rightarrow>
          (case maybe_update_context_glossary loads cl text translation s1 of
             (Inl e, s2) \<Rightarrow> (Inl e, s2)
           | (Inr u, s2) \<Rightarrow> (Inr translation, s2)))"

definition translate_3pass ::
  "(pystr \<Rightarrow> py_exception + json) \<Rightarrow> client \<Rightarrow> pystr \<Rightarrow> translator
     \<Rightarrow> (py_exception + pystr) \<times> translator"
where
  "translate_3pass loads cl text s =
     (case pass1 cl text None (s\<lparr>full_3pass_count := full_3pass_count s + 1\<rparr>) of
        (Inl e, s1) \<Rightarrow> (Inl e, s1)
      | (Inr translation, s1) \<Rightarrow>
          (case pass2 cl text translation False s1 of
             (Inl e, s2) \<Rightarrow> (Inl e, s2)
           | (Inr review, s2) \<Rightarrow>
               if is_quality_ok review then
                 (case maybe_update_context_glossary loads cl text translation
                         (s2\<lparr>reviews_ok := reviews_ok s2 + 1\<rparr>) of
                    (Inl e, s3) \<Rightarrow> (Inl e, s3)
                  | (Inr u, s3) \<Rightarrow> (Inr translation, s3))
               else
                 (case pass3 cl text translation review None
                         (s2\<lparr>reviews_fixed := reviews_fixed s2 + 1\<rparr>) of
                    (Inl e, s3) \<Rightarrow> (Inl e, s3)
                  | (Inr refined, s3) \<Rightarrow>
                      (case maybe_update_context_glossary loads cl text refined s3 of
                         (Inl e, s4) \<Rightarrow> (Inl e, s4)
                       | (Inr u, s4) \<Rightarrow> (Inr refined, s4)))))"

text \<open>
  Lines 354 to 367 of \<open>_translate_batch\<close>: the passes of a batch, returning the
  delimiter-joined translation that is reassembled afterwards.
\<close>

definition batch_passes ::
  "client \<Rightarrow> pystr \<Rightarrow> nat \<Rightarrow> nat \<Rightarrow> translator \<Rightarrow> (py_exception + pystr) \<times> translator"
where
  "batch_passes cl delimited para_count total_chars s =
     (case pass1 cl delimited (Some para_count) s of
        (Inl e, s1) \<Rightarrow> (Inl e, s1)
      | (Inr translation, s1) \<Rightarrow>
          if \<not> skip_review s1 \<and> int total_chars \<ge> min_review_chars s1 then
            (case pass2 cl delimited translation True s1 of
               (Inl e, s2) \<Rightarrow> (Inl e, s2)
             | (Inr review, s2) \<Rightarrow>
                 if is_quality_ok review then (Inr translation, s2\<lparr>reviews_ok := reviews_ok s2 + 1\<rparr>)
                 else pass3 cl delimited translation review (Some para_count)
                        (s2\<lparr>reviews_fixed := reviews_fixed s2 + 1\<rparr>))
          else (Inr translation, s1))"

definition translate_batch ::
  "(pystr \<Rightarrow> py_exception + json) \<Rightarrow> client \<Rightarrow> pystr \<Rightarrow> translator
     \<Rightarrow> (py_exception + pystr) \<times> translator"
where
  "translate_batch loads cl text s =
     (let paragraphs = split_str [NL] text;
          para_count = length paragraphs;
          total_chars = length text;
          delimited = join ([NL] @ PARA_DELIMITER @ [NL]) paragraphs
      in case batch_passes cl delimited para_count total_chars
                (s\<lparr>full_3pass_count := full_3pass_count s + 1\<rparr>) of
           (Inl e, s1) \<Rightarrow> (Inl e, s1)
         | (Inr translation, s1) \<Rightarrow>
             (let result = reassemble text translation
              in case maybe_update_context_glossary loads cl text result s1 of
                   (Inl e, s2) \<Rightarrow> (Inl e, s2)
                 | (Inr u, s2) \<Rightarrow> (Inr result, s2)))"

text \<open>\<open>is_batch = "\n" in text.strip()\<close>, line 301.\<close>

definition is_batch :: "pystr \<Rightarrow> bool" where
  "is_batch text = (NL \<in> set (strip text))"

definition translate ::
  "(pystr \<Rightarrow> py_exception + json) \<Rightarrow> client \<Rightarrow> pystr \<Rightarrow> translator
     \<Rightarrow> (py_exception + pystr) \<times> translator"
where
  "translate loads cl text s =
     (let s0 = s\<lparr>chunk_counter := chunk_counter s + 1\<rparr>
      in if is_batch text then translate_batch loads cl text s0
         else if int (length text) < min_review_chars s0 \<or> skip_review s0
           then translate_pass1_only loads cl text s0
         else translate_3pass loads cl text s0)"

subsection \<open>\<open>load_profile\<close>\<close>

text \<open>
  The profile file as parsed: a field is \<open>None\<close> when the JSON object has no such key.
  The temperature object is given by its three recognised keys.
\<close>

record profile =
  p_name :: "pystr option"
  p_style_instructions :: "pystr option"
  p_protected_nouns :: "pystr list option"
  p_source_language :: "pystr option"
  p_glossary_seed :: "(pystr \<times> pystr) list option"
  p_temp_translate :: "real option"
  p_temp_review :: "real option"
  p_temp_refine :: "real option"
  p_min_review_chars :: "int option"
  p_context_update_interval :: "int option"
  p_glossary_update_interval :: "int option"

definition skip_prefixes :: "pystr list" where
  "skip_prefixes = [str ''Names,'', str ''Add '', str ''DELETE'', str ''Character '',
     str ''One entry'', str ''Delete '']"

definition get_or :: "'a option \<Rightarrow> 'a \<Rightarrow> 'a" where
  "get_or x d = (case x of None \<Rightarrow> d | Some v \<Rightarrow> v)"

text \<open>
  \<open>file\<close> is \<open>None\<close> when \<open>profile_path\<close> does not exist; \<open>basename\<close> is
  \<open>os.path.basename(profile_path)\<close>.
\<close>

definition load_profile ::
  "profile option \<Rightarrow> pystr \<Rightarrow> translator \<Rightarrow> (py_exception + unit) \<times> translator"
where
  "load_profile file basename s =
     (case file of
        None \<Rightarrow> (Inl FileNotFoundError, s)
      | Some p \<Rightarrow>
          (let seed = AList.delete (str ''_comment'') (get_or (p_glossary_seed p) [])
           in (Inr (),
               s\<lparr> profile_name := get_or (p_name p) basename,
                  style_instructions := get_or (p_style_instructions p) (style_instructions s),
                  protected_nouns :=
                    filter (\<lambda>n. \<not> (\<exists>q \<in> set skip_prefixes. startswith n q) \<and> length n < 100)
                      (get_or (p_protected_nouns p) []),
                  source_language := get_or (p_source_language p) (source_language s),
                  glossary := dict_update (glossary s) seed,
                  temp_translate := get_or (p_temp_translate p) (temp_translate s),
                  temp_review := get_or (p_temp_review p) (temp_review s),
                  temp_refine := get_or (p_temp_refine p) (temp_refine s),
                  min_review_chars := get_or (p_min_review_chars p) (min_review_chars s),
                  context_update_interval :=
                    get_or (p_context_update_interval p) (context_update_interval s),
                  glossary_update_interval :=
                    get_or (p_glossary_update_interval p) (glossary_update_interval s) \<rparr>)))"

subsection \<open>Reading the log of completion calls\<close>

text \<open>Which of the five system prompt templates a request is built from.\<close>

datatype template = Translate | Review | Refine | Context | Glossary

fun template_of :: "prompt \<Rightarrow> template" where
  "template_of (TranslateReq g c b t) = Translate"
| "template_of (ReviewReq g b orig t) = Review"
| "template_of (RefineReq g b orig t r) = Refine"
| "template_of (ContextReq p orig t) = Context"
| "template_of (GlossaryReq orig t) = Glossary"

text \<open>The completion calls an operation has made: the log entries added from \<open>s\<close> to \<open>s'\<close>.\<close>

definition new_calls :: "translator \<Rightarrow> translator \<Rightarrow> (request \<times> (py_exception + pystr)) list" where
  "new_calls s s' = drop (length (call_log s)) (call_log s')"

definition templates :: "(request \<times> (py_exception + pystr)) list \<Rightarrow> template list" where
  "templates l = map (\<lambda>e. template_of (prompt (fst e))) l"

section \<open>Example inputs\<close>

text \<open>A client that answers every request with one text block, and one that always fails.\<close>

definition ok_usage :: usage where
  "ok_usage = \<lparr> input_tokens = 10, output_tokens = 5,
     cache_read_input_tokens = None, cache_creation_input_tokens = Some 2 \<rparr>"

definition reply :: "pystr \<Rightarrow> response" where
  "reply t = \<lparr> content = [Block (str ''text'') t], usage = ok_usage \<rparr>"

definition always :: "pystr \<Rightarrow> client" where
  "always t i req = Respond (reply t)"

text \<open>
  A client whose first four invocations fail with a rate-limit message, and a client that
  never answers.
\<close>

definition flaky :: client where
  "flaky i req =
     (if i < 4 then Raise (str ''APIStatusError'') (str ''Rate limit hit'')
      else Respond (reply (str ''OK'')))"

definition broken :: client where
  "broken i req = Raise (str ''APIConnectionError'') (str ''Connection reset'')"

definition some_request :: request where
  "some_request = \<lparr> prompt = GlossaryReq [] [], temperature = 0.1, max_tokens = 1024,
     use_cache = False \<rparr>"

text \<open>A translator in the middle of a book: chunk 1 is behind it, review is switched off.\<close>

definition no_review :: translator where
  "no_review = (init False True [])\<lparr>chunk_counter := 1\<rparr>"

text \<open>A glossary store holding a reserved key: \<open>{"_x": "y", "b": "c", "a": "d"}\<close>.\<close>

definition marked_glossary :: translator where
  "marked_glossary = no_review\<lparr>glossary := [(str ''_x'', str ''y''), (str ''b'', str ''c''),
     (str ''a'', str ''d'')]\<rparr>"

text \<open>A translator with review enabled and a threshold of 0, as in the end-to-end scenario.\<close>

definition review_all :: translator where
  "review_all = (init False False [])\<lparr>chunk_counter := 1, min_review_chars := 0\<rparr>"

text \<open>A \<open>json.loads\<close> that rejects every text.\<close>

definition no_json :: "pystr \<Rightarrow> py_exception + json" where
  "no_json t = Inl JSONDecodeError"


text \<open>
  A \<open>json.loads\<close> that parses every text to the given value, a response object with a
  reserved key and a non-string value, a translator whose next unit is number 20 (a
  glossary refresh is due), the same with one glossary entry, and a profile that has
  only a seed glossary.
\<close>

definition parsed :: "json \<Rightarrow> pystr \<Rightarrow> py_exception + json" where
  "parsed j t = Inr j"

definition terms_json :: json where
  "terms_json = JObject [(str ''_k'', JString (str ''v'')), (str ''k'', JString (str ''v'')),
     (str ''n'', JInt 1)]"

definition due :: translator where
  "due = no_review\<lparr>chunk_counter := 19\<rparr>"

definition seeded :: translator where
  "seeded = due\<lparr>glossary := [(str ''a'', str ''b'')]\<rparr>"

definition seed_profile :: "(pystr \<times> pystr) list \<Rightarrow> profile" where
  "seed_profile seed = \<lparr> p_name = None, p_style_instructions = None, p_protected_nouns = None,
     p_source_language = None, p_glossary_seed = Some seed, p_temp_translate = None,
     p_temp_review = None, p_temp_refine = None, p_min_review_chars = None,
     p_context_update_interval = None, p_glossary_update_interval = None \<rparr>"

section \<open>Facts about splitting and joining\<close>

lemma length_split_from_char:
  "length (split_from [c] acc s) = Suc (count_list s c)"
  by (induction s arbitrary: acc) auto

lemma length_split_str_char:
  "length (split_str [c] s) = Suc (count_list s c)"
  by (simp add: split_str_def length_split_from_char)

lemma split_from_char_free:
  "c \<notin> set acc \<Longrightarrow> p \<in> set (split_from [c] acc s) \<Longrightarrow> c \<notin> set p"
proof (induction s arbitrary: acc)
  case Nil
  then show ?case by auto
next
  case (Cons a s)
  show ?case
  proof (cases "a = c")
    case True
    with Cons.prems have "p = rev acc \<or> p \<in> set (split_from [c] [] s)" by simp
    then show ?thesis using Cons.prems(1) Cons.IH [of "[]"] by auto
  next
    case False
    with Cons.prems have "p \<in> set (split_from [c] (a # acc) s)" by simp
    then show ?thesis using Cons.prems(1) False Cons.IH [of "a # acc"] by auto
  qed
qed

lemma split_str_char_free:
  "p \<in> set (split_str [c] s) \<Longrightarrow> c \<notin> set p"
  using split_from_char_free [of c "[]" p s] by (simp add: split_str_def)

lemma count_list_0_iff:
  "count_list xs c = 0 \<longleftrightarrow> c \<notin> set xs"
  by (induction xs) auto

lemma count_join_char:
  "xs \<noteq> [] \<Longrightarrow> \<forall>x \<in> set xs. c \<notin> set x \<Longrightarrow> count_list (join [c] xs) c = length xs - 1"
proof (induction xs rule: induct_list012)
  case (3 x y ys)
  then show ?case by (simp add: count_list_0_iff)
qed (simp_all add: count_list_0_iff)

lemma length_split_join_char:
  assumes "xs \<noteq> []" and "\<forall>x \<in> set xs. c \<notin> set x"
  shows "length (split_str [c] (join [c] xs)) = length xs"
  using assms by (cases xs) (simp_all add: length_split_str_char count_join_char)

lemma join_free:
  "\<forall>x \<in> set xs. c \<notin> set x \<Longrightarrow> c \<notin> set sep \<Longrightarrow> c \<notin> set (join sep xs)"
  by (induction sep xs rule: join.induct) auto

lemma batch_parts_free:
  "p \<in> set (batch_parts translation) \<Longrightarrow> NL \<notin> set p"
  by (auto simp: batch_parts_def replace_char_def NL_def SP_def)

lemma length_split_str_pos:
  "0 < length (split_str [c] s)"
  by (simp add: length_split_str_char)

lemma reassemble_count:
  "length (split_str [NL] (reassemble text translation)) = length (split_str [NL] text)"
proof -
  let ?ps = "split_str [NL] text"
  let ?n = "length ?ps"
  let ?parts = "batch_parts translation"
  have n: "0 < ?n" by (rule length_split_str_pos)
  consider (eq) "length ?parts = ?n" | (more) "length ?parts > ?n" | (less) "length ?parts < ?n"
    by linarith
  then show ?thesis
  proof cases
    case eq
    with n have "?parts \<noteq> []" by auto
    moreover have "\<forall>x \<in> set ?parts. NL \<notin> set x" by (simp add: batch_parts_free)
    ultimately have "length (split_str [NL] (join [NL] ?parts)) = length ?parts"
      by (rule length_split_join_char)
    with eq show ?thesis by (simp add: reassemble_def)
  next
    case more
    let ?m = "take (?n - 1) ?parts @ [join [SP] (drop (?n - 1) ?parts)]"
    have free: "\<forall>x \<in> set ?m. NL \<notin> set x"
    proof
      fix x assume "x \<in> set ?m"
      then consider "x \<in> set (take (?n - 1) ?parts)" | "x = join [SP] (drop (?n - 1) ?parts)"
        by auto
      then show "NL \<notin> set x"
      proof cases
        case 1
        then have "x \<in> set ?parts" by (rule in_set_takeD)
        then show ?thesis by (rule batch_parts_free)
      next
        case 2
        have "\<forall>y \<in> set (drop (?n - 1) ?parts). NL \<notin> set y"
          by (auto dest: in_set_dropD batch_parts_free)
        then have "NL \<notin> set (join [SP] (drop (?n - 1) ?parts))"
          by (rule join_free) (simp add: NL_def SP_def)
        with 2 show ?thesis by simp
      qed
    qed
    have "length ?m = ?n" using more n by simp
    moreover have "length (split_str [NL] (join [NL] ?m)) = length ?m"
      using free by (intro length_split_join_char) simp_all
    ultimately show ?thesis using more by (simp add: reassemble_def Let_def)
  next
    case less
    let ?p = "take ?n (?parts @ drop (length ?parts) ?ps)"
    have len: "length ?p = ?n" using less by simp
    have free: "\<forall>x \<in> set ?p. NL \<notin> set x"
    proof
      fix x assume "x \<in> set ?p"
      then have "x \<in> set (?parts @ drop (length ?parts) ?ps)" by (rule in_set_takeD)
      then have "x \<in> set ?parts \<or> x \<in> set ?ps" by (auto dest: in_set_dropD)
      then show "NL \<notin> set x" by (auto dest: batch_parts_free split_str_char_free)
    qed
    have "?p \<noteq> []" using len n by auto
    then have "length (split_str [NL] (join [NL] ?p)) = length ?p"
      using free by (rule length_split_join_char)
    with len less show ?thesis by (simp add: reassemble_def Let_def)
  qed
qed

lemma split_from_char_no_sep:
  "c \<notin> set x \<Longrightarrow> split_from [c] acc x = [rev acc @ x]"
  by (induction x arbitrary: acc) auto

lemma split_from_char_append:
  "c \<notin> set x \<Longrightarrow> split_from [c] acc (x @ c # rest) = (rev acc @ x) # split_from [c] [] rest"
  by (induction x arbitrary: acc) auto

lemma split_join_char:
  "xs \<noteq> [] \<Longrightarrow> \<forall>x \<in> set xs. c \<notin> set x \<Longrightarrow> split_str [c] (join [c] xs) = xs"
proof (induction xs rule: induct_list012)
  case 1
  then show ?case by simp
next
  case (2 x)
  then show ?case by (simp add: split_str_def split_from_char_no_sep)
next
  case (3 x y ys)
  then have "split_str [c] (join [c] (y # ys)) = y # ys" by simp
  with 3 show ?case by (simp add: split_str_def split_from_char_append)
qed

lemma reassemble_segments:
  "split_str [NL] (reassemble text translation) =
     (let paragraphs = split_str [NL] text; n = length paragraphs;
          parts = batch_parts translation; m = length parts
      in if m = n then parts
         else if m > n then take (n - 1) parts @ [join [SP] (drop (n - 1) parts)]
         else parts @ drop m paragraphs)"
proof -
  let ?ps = "split_str [NL] text"
  let ?n = "length ?ps"
  let ?parts = "batch_parts translation"
  have n: "0 < ?n" by (rule length_split_str_pos)
  have parts_free: "\<forall>x \<in> set ?parts. NL \<notin> set x" by (simp add: batch_parts_free)
  consider (eq) "length ?parts = ?n" | (more) "length ?parts > ?n" | (less) "length ?parts < ?n"
    by linarith
  then show ?thesis
  proof cases
    case eq
    with n have "?parts \<noteq> []" by auto
    then have "split_str [NL] (join [NL] ?parts) = ?parts"
      using parts_free by (rule split_join_char)
    with eq show ?thesis by (simp add: reassemble_def)
  next
    case more
    let ?m = "take (?n - 1) ?parts @ [join [SP] (drop (?n - 1) ?parts)]"
    have "\<forall>y \<in> set (drop (?n - 1) ?parts). NL \<notin> set y"
      using parts_free by (auto dest: in_set_dropD)
    then have "NL \<notin> set (join [SP] (drop (?n - 1) ?parts))"
      by (rule join_free) (simp add: NL_def SP_def)
    then have "\<forall>x \<in> set ?m. NL \<notin> set x"
      using parts_free by (auto dest: in_set_takeD)
    then have "split_str [NL] (join [NL] ?m) = ?m"
      by (intro split_join_char) simp_all
    with more show ?thesis by (simp add: reassemble_def Let_def)
  next
    case less
    let ?p = "?parts @ drop (length ?parts) ?ps"
    have len: "length ?p = ?n" using less by simp
    have "\<forall>x \<in> set ?p. NL \<notin> set x"
      using parts_free by (auto dest: in_set_dropD split_str_char_free)
    moreover have "?p \<noteq> []" using len n by auto
    ultimately have "split_str [NL] (join [NL] ?p) = ?p"
      by (intro split_join_char)
    moreover have "take ?n ?p = ?p" using len by simp
    ultimately show ?thesis using less by (simp add: reassemble_def Let_def)
  qed
qed

section \<open>Facts about the completion call\<close>

lemma upt5: "[0..<5] = [0, 1, 2, 3, 4]"
  by (simp add: upt_rec)

lemma api_call_respond:
  assumes "cl (attempts s) req = Respond r"
  shows "api_call cl req 5 s =
     (Inr (response_text r),
      s\<lparr>attempts := attempts s + 1,
         total_input_tokens := total_input_tokens s + input_tokens (usage r),
         total_output_tokens := total_output_tokens s + output_tokens (usage r),
         total_cache_read_tokens := total_cache_read_tokens s
            + (case cache_read_input_tokens (usage r) of None \<Rightarrow> 0 | Some n \<Rightarrow> n),
         total_cache_create_tokens := total_cache_create_tokens s
            + (case cache_creation_input_tokens (usage r) of None \<Rightarrow> 0 | Some n \<Rightarrow> n),
         total_requests := total_requests s + 1,
         call_log := call_log s @ [(req, Inr (response_text r))]\<rparr>)"
  using assms by (simp add: api_call_def upt5 Let_def)

lemma api_call_always:
  "api_call (always t) req 5 s =
     (Inr t,
      s\<lparr>attempts := attempts s + 1,
         total_input_tokens := total_input_tokens s + 10,
         total_output_tokens := total_output_tokens s + 5,
         total_cache_read_tokens := total_cache_read_tokens s,
         total_cache_create_tokens := total_cache_create_tokens s + 2,
         total_requests := total_requests s + 1,
         call_log := call_log s @ [(req, Inr t)]\<rparr>)"
proof -
  have "always t (attempts s) req = Respond (reply t)" by (simp add: always_def)
  then show ?thesis
    by (simp add: api_call_respond reply_def ok_usage_def response_text_def str_def)
qed

lemmas string_defs = split_str_def PARA_DELIMITER_def str_def strip_def isspace_def
  replace_char_def NL_def SP_def startswith_def

lemmas init_defs = init_def DEFAULT_GLOSSARY_INTERVAL_def DEFAULT_MIN_REVIEW_CHARS_def
  DEFAULT_CONTEXT_INTERVAL_def

lemmas refresh_defs = maybe_update_context_glossary_def context_refresh_def glossary_refresh_def

lemma api_loop_frame:
  "api_loop cl req n as s = (r, s') \<Longrightarrow>
     glossary s' = glossary s \<and> context_summary s' = context_summary s
     \<and> skip_review s' = skip_review s \<and> min_review_chars s' = min_review_chars s
     \<and> context_flag s' = context_flag s
     \<and> context_update_interval s' = context_update_interval s
     \<and> glossary_update_interval s' = glossary_update_interval s
     \<and> chunk_counter s' = chunk_counter s
     \<and> pass1_only_count s' = pass1_only_count s \<and> full_3pass_count s' = full_3pass_count s
     \<and> reviews_ok s' = reviews_ok s \<and> reviews_fixed s' = reviews_fixed s
     \<and> glossary_extract_failures s' = glossary_extract_failures s
     \<and> call_log s' = call_log s"
proof (induction as arbitrary: s)
  case Nil
  then show ?case by auto
next
  case (Cons a as)
  show ?case
  proof (cases "cl (attempts s) req")
    case (Respond resp)
    with Cons.prems show ?thesis by (auto simp: Let_def)
  next
    case (Raise err msg)
    show ?thesis
    proof (cases "a < n - 1")
      case True
      with Raise Cons.prems have
        "api_loop cl req n as
           (s\<lparr>attempts := attempts s + 1,
              sleep_log := sleep_log s @ [backoff_wait a err msg]\<rparr>) = (r, s')"
        by (simp add: Let_def)
      from Cons.IH [OF this] show ?thesis by simp
    next
      case False
      with Raise Cons.prems show ?thesis by (auto simp: Let_def)
    qed
  qed
qed

lemma api_call_frame:
  assumes "api_call cl req n s = (r, s')"
  shows "glossary s' = glossary s" and "context_summary s' = context_summary s"
    and "skip_review s' = skip_review s" and "min_review_chars s' = min_review_chars s"
    and "context_flag s' = context_flag s"
    and "context_update_interval s' = context_update_interval s"
    and "glossary_update_interval s' = glossary_update_interval s"
    and "chunk_counter s' = chunk_counter s"
    and "pass1_only_count s' = pass1_only_count s" and "full_3pass_count s' = full_3pass_count s"
    and "reviews_ok s' = reviews_ok s" and "reviews_fixed s' = reviews_fixed s"
    and "glossary_extract_failures s' = glossary_extract_failures s"
    and "call_log s' = call_log s @ [(req, r)]"
proof -
  obtain s1 where loop: "api_loop cl req n [0..<n] s = (r, s1)"
    and s': "s' = s1\<lparr>call_log := call_log s1 @ [(req, r)]\<rparr>"
    using assms by (auto simp: api_call_def split: prod.splits)
  note f = api_loop_frame [OF loop]
  show "glossary s' = glossary s" and "context_summary s' = context_summary s"
    and "skip_review s' = skip_review s" and "min_review_chars s' = min_review_chars s"
    and "context_flag s' = context_flag s"
    and "context_update_interval s' = context_update_interval s"
    and "glossary_update_interval s' = glossary_update_interval s"
    and "chunk_counter s' = chunk_counter s"
    and "pass1_only_count s' = pass1_only_count s" and "full_3pass_count s' = full_3pass_count s"
    and "reviews_ok s' = reviews_ok s" and "reviews_fixed s' = reviews_fixed s"
    and "glossary_extract_failures s' = glossary_extract_failures s"
    and "call_log s' = call_log s @ [(req, r)]"
    using f s' by simp_all
qed

lemma api_loop_attempts:
  "api_loop cl req n as s = (r, s') \<Longrightarrow>
     attempts s \<le> attempts s' \<and> attempts s' \<le> attempts s + length as
     \<and> total_requests s' \<le> total_requests s + 1"
proof (induction as arbitrary: s)
  case Nil
  then show ?case by auto
next
  case (Cons a as)
  show ?case
  proof (cases "cl (attempts s) req")
    case (Respond resp)
    with Cons.prems show ?thesis by (auto simp: Let_def)
  next
    case (Raise err msg)
    show ?thesis
    proof (cases "a < n - 1")
      case True
      with Raise Cons.prems have
        "api_loop cl req n as
           (s\<lparr>attempts := attempts s + 1,
              sleep_log := sleep_log s @ [backoff_wait a err msg]\<rparr>) = (r, s')"
        by (simp add: Let_def)
      from Cons.IH [OF this] show ?thesis by simp
    next
      case False
      with Raise Cons.prems show ?thesis by (auto simp: Let_def)
    qed
  qed
qed

section \<open>Facts about the refreshes\<close>

lemma new_calls_append [simp]:
  "call_log s' = call_log s @ l \<Longrightarrow> new_calls s s' = l"
  by (simp add: new_calls_def)

lemma context_refresh_frame:
  assumes "context_refresh cl orig tr s = (r, s')"
  shows "glossary s' = glossary s"
    and "skip_review s' = skip_review s" and "min_review_chars s' = min_review_chars s"
    and "glossary_update_interval s' = glossary_update_interval s"
    and "chunk_counter s' = chunk_counter s"
    and "pass1_only_count s' = pass1_only_count s" and "full_3pass_count s' = full_3pass_count s"
    and "reviews_ok s' = reviews_ok s" and "reviews_fixed s' = reviews_fixed s"
    and "glossary_extract_failures s' = glossary_extract_failures s"
    and "\<exists>l. call_log s' = call_log s @ l \<and> set (templates l) \<subseteq> {Context}"
    and "r = Inr () \<or> r = Inl ZeroDivisionError"
  using assms
  by (auto simp: context_refresh_def Let_def templates_def
      split: if_splits prod.splits sum.splits dest: api_call_frame)

lemma merge_response_frame:
  "context_summary (merge_response loads resp s) = context_summary s"
  "chunk_counter (merge_response loads resp s) = chunk_counter s"
  "pass1_only_count (merge_response loads resp s) = pass1_only_count s"
  "full_3pass_count (merge_response loads resp s) = full_3pass_count s"
  "reviews_ok (merge_response loads resp s) = reviews_ok s"
  "reviews_fixed (merge_response loads resp s) = reviews_fixed s"
  "call_log (merge_response loads resp s) = call_log s"
  by (simp_all add: merge_response_def Let_def split: sum.splits json.splits)

lemma glossary_refresh_frame:
  assumes "glossary_refresh loads cl orig tr s = (r, s')"
  shows "context_summary s' = context_summary s"
    and "chunk_counter s' = chunk_counter s"
    and "pass1_only_count s' = pass1_only_count s" and "full_3pass_count s' = full_3pass_count s"
    and "reviews_ok s' = reviews_ok s" and "reviews_fixed s' = reviews_fixed s"
    and "\<exists>l. call_log s' = call_log s @ l \<and> set (templates l) \<subseteq> {Glossary}"
    and "r = Inr () \<or> r = Inl ZeroDivisionError"
  using assms
  by (auto simp: glossary_refresh_def Let_def templates_def merge_response_frame
      split: if_splits prod.splits sum.splits dest: api_call_frame)

lemma maybe_update_frame:
  assumes "maybe_update_context_glossary loads cl orig tr s = (r, s')"
  shows "chunk_counter s' = chunk_counter s"
    and "pass1_only_count s' = pass1_only_count s" and "full_3pass_count s' = full_3pass_count s"
    and "reviews_ok s' = reviews_ok s" and "reviews_fixed s' = reviews_fixed s"
    and "\<exists>l. call_log s' = call_log s @ l \<and> set (templates l) \<subseteq> {Context, Glossary}"
    and "r = Inr () \<or> r = Inl ZeroDivisionError"
proof -
  obtain r1 s1 where c: "context_refresh cl orig tr s = (r1, s1)"
    by (cases "context_refresh cl orig tr s")
  note cf = context_refresh_frame [OF c]
  have all: "chunk_counter s' = chunk_counter s
      \<and> pass1_only_count s' = pass1_only_count s \<and> full_3pass_count s' = full_3pass_count s
      \<and> reviews_ok s' = reviews_ok s \<and> reviews_fixed s' = reviews_fixed s
      \<and> (\<exists>l. call_log s' = call_log s @ l \<and> set (templates l) \<subseteq> {Context, Glossary})
      \<and> (r = Inr () \<or> r = Inl ZeroDivisionError)"
  proof (cases r1)
    case (Inl e)
    with assms c have "s' = s1" "r = Inl e"
      by (simp_all add: maybe_update_context_glossary_def)
    with cf Inl show ?thesis by auto
  next
    case (Inr u)
    with assms c have g: "glossary_refresh loads cl orig tr s1 = (r, s')"
      by (simp add: maybe_update_context_glossary_def)
    note gf = glossary_refresh_frame [OF g]
    obtain l1 l2 where "call_log s1 = call_log s @ l1" "set (templates l1) \<subseteq> {Context}"
      "call_log s' = call_log s1 @ l2" "set (templates l2) \<subseteq> {Glossary}"
      using cf(11) gf(7) by blast
    then have "call_log s' = call_log s @ (l1 @ l2)"
      "set (templates (l1 @ l2)) \<subseteq> {Context, Glossary}"
      by (auto simp: templates_def)
    then have "\<exists>l. call_log s' = call_log s @ l \<and> set (templates l) \<subseteq> {Context, Glossary}"
      by blast
    with cf gf show ?thesis by simp
  qed
  show "chunk_counter s' = chunk_counter s"
    and "pass1_only_count s' = pass1_only_count s" and "full_3pass_count s' = full_3pass_count s"
    and "reviews_ok s' = reviews_ok s" and "reviews_fixed s' = reviews_fixed s"
    and "\<exists>l. call_log s' = call_log s @ l \<and> set (templates l) \<subseteq> {Context, Glossary}"
    and "r = Inr () \<or> r = Inl ZeroDivisionError"
    using all by blast+
qed

section \<open>C3: short single paragraphs\<close>

lemma translate_pass1_only_calls:
  assumes "translate_pass1_only loads cl text s = (r, s')"
  shows "pass1_only_count s' = pass1_only_count s + 1
    \<and> full_3pass_count s' = full_3pass_count s
    \<and> (\<exists>rest. templates (new_calls s s') = Translate # rest \<and> set rest \<subseteq> {Context, Glossary})"
proof -
  let ?s0 = "s\<lparr>pass1_only_count := pass1_only_count s + 1\<rparr>"
  obtain r1 s1 where p: "pass1 cl text None ?s0 = (r1, s1)"
    by (cases "pass1 cl text None ?s0")
  then obtain q where a: "api_call cl q 5 ?s0 = (r1, s1)" "template_of (prompt q) = Translate"
    by (auto simp: pass1_def)
  note f = api_call_frame [OF a(1)]
  show ?thesis
  proof (cases r1)
    case (Inl e)
    with assms p have "s' = s1" by (simp add: translate_pass1_only_def)
    with f a(2) show ?thesis by (simp add: templates_def)
  next
    case (Inr translation)
    obtain r2 s2 where m: "maybe_update_context_glossary loads cl text translation s1 = (r2, s2)"
      by (cases "maybe_update_context_glossary loads cl text translation s1")
    with assms p Inr have "s' = s2"
      by (auto simp: translate_pass1_only_def split: sum.splits)
    moreover note g = maybe_update_frame [OF m]
    moreover obtain l where "call_log s2 = call_log s1 @ l" "set (templates l) \<subseteq> {Context, Glossary}"
      using g(6) by blast
    ultimately show ?thesis using f a(2) by (simp add: templates_def)
  qed
qed

lemma translate_batch_short_calls:
  assumes "translate_batch loads cl text s = (r, s')"
    and "int (length text) < min_review_chars s \<or> skip_review s"
  shows "pass1_only_count s' = pass1_only_count s
    \<and> full_3pass_count s' = full_3pass_count s + 1
    \<and> (\<exists>rest. templates (new_calls s s') = Translate # rest \<and> set rest \<subseteq> {Context, Glossary})"
proof -
  let ?s0 = "s\<lparr>full_3pass_count := full_3pass_count s + 1\<rparr>"
  let ?d = "join ([NL] @ PARA_DELIMITER @ [NL]) (split_str [NL] text)"
  let ?n = "length (split_str [NL] text)"
  obtain r1 s1 where p: "pass1 cl ?d (Some ?n) ?s0 = (r1, s1)"
    by (cases "pass1 cl ?d (Some ?n) ?s0")
  then obtain q where a: "api_call cl q 5 ?s0 = (r1, s1)" "template_of (prompt q) = Translate"
    by (auto simp: pass1_def)
  note f = api_call_frame [OF a(1)]
  have gate: "\<not> (\<not> skip_review s1 \<and> int (length text) \<ge> min_review_chars s1)"
    using assms(2) f by auto
  have b: "batch_passes cl ?d ?n (length text) ?s0 = (r1, s1)"
    using p gate by (cases r1) (auto simp: batch_passes_def)
  show ?thesis
  proof (cases r1)
    case (Inl e)
    with assms(1) b have "s' = s1" by (simp add: translate_batch_def Let_def)
    with f a(2) show ?thesis by (simp add: templates_def)
  next
    case (Inr translation)
    obtain r2 s2 where m: "maybe_update_context_glossary loads cl text
        (reassemble text translation) s1 = (r2, s2)"
      by (cases "maybe_update_context_glossary loads cl text (reassemble text translation) s1")
    with assms(1) b Inr have "s' = s2"
      by (auto simp: translate_batch_def Let_def split: sum.splits)
    moreover note g = maybe_update_frame [OF m]
    moreover obtain l where "call_log s2 = call_log s1 @ l" "set (templates l) \<subseteq> {Context, Glossary}"
      using g(6) by blast
    ultimately show ?thesis using f a(2) by (simp add: templates_def)
  qed
qed

text \<open>
  Claim C3, amended. For every unit whose length is below the minimum-review-character
  threshold, the top-level translate operation issues exactly one translate call and no
  review or refine call (the calls after it are refreshes). When the unit is not a batch
  it runs Pass-1-only mode and adds 1 to the Pass-1-only counter and nothing to the 3-pass
  counter; when the unit is a batch it runs the batch path, which adds 1 to the 3-pass
  counter and nothing to the Pass-1-only counter.
\<close>

theorem translate_short_unit:
  "int (length text) < min_review_chars s \<longrightarrow>
     (\<exists>rest. templates (new_calls s (snd (translate loads cl text s))) = Translate # rest
           \<and> set rest \<subseteq> {Context, Glossary})
     \<and> (if is_batch text
        then full_3pass_count (snd (translate loads cl text s)) = full_3pass_count s + 1
          \<and> pass1_only_count (snd (translate loads cl text s)) = pass1_only_count s
        else pass1_only_count (snd (translate loads cl text s)) = pass1_only_count s + 1
          \<and> full_3pass_count (snd (translate loads cl text s)) = full_3pass_count s)"
proof
  assume h: "int (length text) < min_review_chars s"
  let ?s0 = "s\<lparr>chunk_counter := chunk_counter s + 1\<rparr>"
  show "(\<exists>rest. templates (new_calls s (snd (translate loads cl text s))) = Translate # rest
           \<and> set rest \<subseteq> {Context, Glossary})
     \<and> (if is_batch text
        then full_3pass_count (snd (translate loads cl text s)) = full_3pass_count s + 1
          \<and> pass1_only_count (snd (translate loads cl text s)) = pass1_only_count s
        else pass1_only_count (snd (translate loads cl text s)) = pass1_only_count s + 1
          \<and> full_3pass_count (snd (translate loads cl text s)) = full_3pass_count s)"
  proof (cases "is_batch text")
    case True
    then have t: "translate loads cl text s = translate_batch loads cl text ?s0"
      by (simp add: translate_def Let_def)
    obtain r s' where p: "translate_batch loads cl text ?s0 = (r, s')"
      by (cases "translate_batch loads cl text ?s0")
    have "int (length text) < min_review_chars ?s0 \<or> skip_review ?s0" using h by simp
    from translate_batch_short_calls [OF p this] t p True
    show ?thesis by (simp add: new_calls_def)
  next
    case False
    then have t: "translate loads cl text s = translate_pass1_only loads cl text ?s0"
      using h by (simp add: translate_def Let_def)
    obtain r s' where p: "translate_pass1_only loads cl text ?s0 = (r, s')"
      by (cases "translate_pass1_only loads cl text ?s0")
    from translate_pass1_only_calls [OF p] t p False
    show ?thesis by (simp add: new_calls_def)
  qed
qed

theorem translate_short_unit_witness:
  "int (length [65 :: nat]) < min_review_chars (init False False []) \<and> \<not> is_batch [65]
   \<and> templates (new_calls (init False False [])
        (snd (translate no_json (always [88]) [65] (init False False [])))) = [Translate]
   \<and> pass1_only_count (snd (translate no_json (always [88]) [65] (init False False []))) = 1
   \<and> full_3pass_count (snd (translate no_json (always [88]) [65] (init False False []))) = 0
   \<and> int (length [65 :: nat, 10, 66]) < min_review_chars (init False False [])
   \<and> is_batch [65, 10, 66]
   \<and> templates (new_calls (init False False [])
        (snd (translate no_json (always [88]) [65, 10, 66] (init False False [])))) = [Translate]
   \<and> pass1_only_count (snd (translate no_json (always [88]) [65, 10, 66] (init False False []))) = 0
   \<and> full_3pass_count (snd (translate no_json (always [88]) [65, 10, 66] (init False False []))) = 1"
proof -
  have h: "int (length [65 :: nat]) < min_review_chars (init False False [])" "\<not> is_batch [65]"
    "int (length [65 :: nat, 10, 66]) < min_review_chars (init False False [])"
    "is_batch [65, 10, 66]"
    by (simp_all add: is_batch_def init_defs string_defs)
  have e1: "templates (new_calls (init False False [])
        (snd (translate no_json (always [88]) [65] (init False False [])))) = [Translate]"
    by (simp add: translate_def translate_pass1_only_def pass1_def api_call_always is_batch_def
        init_defs refresh_defs string_defs new_calls_def templates_def Let_def)
  have e2: "templates (new_calls (init False False [])
        (snd (translate no_json (always [88]) [65, 10, 66] (init False False [])))) = [Translate]"
    by (simp add: translate_def translate_batch_def batch_passes_def pass1_def api_call_always
        is_batch_def init_defs refresh_defs string_defs new_calls_def templates_def Let_def)
  have i: "pass1_only_count (init False False []) = 0" "full_3pass_count (init False False []) = 0"
    by (simp_all add: init_def)
  from translate_short_unit [of "[65]" "init False False []" no_json "always [88]"] h(1,2) i
  have c1: "pass1_only_count (snd (translate no_json (always [88]) [65] (init False False []))) = 1"
    "full_3pass_count (snd (translate no_json (always [88]) [65] (init False False []))) = 0"
    by simp_all
  from translate_short_unit [of "[65, 10, 66]" "init False False []" no_json "always [88]"]
    h(3,4) i
  have c2: "pass1_only_count (snd (translate no_json (always [88]) [65, 10, 66]
        (init False False []))) = 0"
    "full_3pass_count (snd (translate no_json (always [88]) [65, 10, 66]
        (init False False []))) = 1"
    by simp_all
  from h e1 e2 c1 c2 show ?thesis by simp
qed

text \<open>
  The claim as stated fails for a short batch: \<open>"A\nB"\<close> is below the threshold of 300 and
  is dispatched to batch mode, which counts it as a 3-pass unit.
\<close>

theorem translate_short_batch_counterexample:
  "int (length [65 :: nat, 10, 66]) < min_review_chars (init False False [])
   \<and> pass1_only_count (snd (translate no_json (always [88]) [65, 10, 66] (init False False [])))
       \<noteq> pass1_only_count (init False False []) + 1
   \<and> full_3pass_count (snd (translate no_json (always [88]) [65, 10, 66] (init False False []))) = 1"
  by (simp add: translate_def translate_batch_def batch_passes_def pass1_def api_call_always
      is_batch_def init_defs refresh_defs string_defs Let_def)

section \<open>C4: the review of a batch\<close>

lemma api_call_all:
  assumes "api_call cl req n s = (r, s')"
  shows "skip_review s' = skip_review s \<and> min_review_chars s' = min_review_chars s
    \<and> call_log s' = call_log s @ [(req, r)]"
  using api_call_frame [OF assms] by simp

lemma batch_passes_log:
  assumes "batch_passes cl d n tc s = (r, s')"
  shows "\<exists>q r1 rest. call_log s' = call_log s @ (q, r1) # rest
     \<and> template_of (prompt q) = Translate
     \<and> set (templates rest) \<subseteq> {Review, Refine}
     \<and> (Review \<in> set (templates rest) \<longleftrightarrow>
          (\<exists>t. r1 = Inr t) \<and> \<not> skip_review s \<and> int tc \<ge> min_review_chars s)
     \<and> ((\<exists>e. r1 = Inl e) \<longrightarrow> (\<exists>e. r = Inl e))"
proof -
  obtain r1 s1 where p1: "pass1 cl d (Some n) s = (r1, s1)"
    by (cases "pass1 cl d (Some n) s")
  then obtain q1 where a1: "api_call cl q1 5 s = (r1, s1)" "template_of (prompt q1) = Translate"
    by (auto simp: pass1_def)
  note f1 = api_call_all [OF a1(1)]
  show ?thesis
  proof (cases r1)
    case (Inl e)
    with assms p1 have "s' = s1" "r = Inl e" by (simp_all add: batch_passes_def)
    with f1 a1(2) Inl show ?thesis by (auto simp: templates_def)
  next
    case (Inr translation)
    show ?thesis
    proof (cases "\<not> skip_review s \<and> int tc \<ge> min_review_chars s")
      case False
      with assms p1 Inr f1 have "s' = s1" by (auto simp: batch_passes_def)
      with f1 a1(2) Inr False show ?thesis by (auto simp: templates_def)
    next
      case True
      obtain r2 s2 where p2: "pass2 cl d translation True s1 = (r2, s2)"
        by (cases "pass2 cl d translation True s1")
      then obtain q2 where a2: "api_call cl q2 5 s1 = (r2, s2)" "template_of (prompt q2) = Review"
        by (auto simp: pass2_def)
      note f2 = api_call_all [OF a2(1)]
      have "\<exists>more. call_log s' = call_log s2 @ more \<and> set (templates more) \<subseteq> {Refine}"
      proof (cases r2)
        case (Inl e)
        with assms p1 p2 Inr True f1 have "s' = s2" by (auto simp: batch_passes_def)
        then show ?thesis by (simp add: templates_def)
      next
        case rv: (Inr review)
        show ?thesis
        proof (cases "is_quality_ok review")
          case ok: True
          with assms p1 p2 Inr True f1 rv have "s' = s2\<lparr>reviews_ok := reviews_ok s2 + 1\<rparr>"
            by (auto simp: batch_passes_def)
          then show ?thesis by (simp add: templates_def)
        next
          case nok: False
          let ?s2 = "s2\<lparr>reviews_fixed := reviews_fixed s2 + 1\<rparr>"
          from assms p1 p2 Inr True f1 rv nok
          have "pass3 cl d translation review (Some n) ?s2 = (r, s')"
            by (auto simp: batch_passes_def)
          then obtain q3 where a3: "api_call cl q3 5 ?s2 = (r, s')"
            "template_of (prompt q3) = Refine"
            by (auto simp: pass3_def)
          from api_call_all [OF a3(1)] a3(2) show ?thesis by (simp add: templates_def)
        qed
      qed
      then obtain more where "call_log s' = call_log s2 @ more" "set (templates more) \<subseteq> {Refine}"
        by blast
      with f1 f2 a1(2) a2(2) Inr True show ?thesis by (auto simp: templates_def)
    qed
  qed
qed

lemma translate_batch_log:
  assumes "translate_batch loads cl text s = (r, s')"
  shows "\<exists>q r1 rest. call_log s' = call_log s @ (q, r1) # rest
     \<and> template_of (prompt q) = Translate
     \<and> Translate \<notin> set (templates rest)
     \<and> (Review \<in> set (templates rest) \<longleftrightarrow>
          (\<exists>t. r1 = Inr t) \<and> \<not> skip_review s \<and> int (length text) \<ge> min_review_chars s)"
proof -
  let ?s0 = "s\<lparr>full_3pass_count := full_3pass_count s + 1\<rparr>"
  let ?d = "join ([NL] @ PARA_DELIMITER @ [NL]) (split_str [NL] text)"
  let ?n = "length (split_str [NL] text)"
  obtain rb sb where b: "batch_passes cl ?d ?n (length text) ?s0 = (rb, sb)"
    by (cases "batch_passes cl ?d ?n (length text) ?s0")
  from batch_passes_log [OF b] obtain q r1 rest where
    l: "call_log sb = call_log s @ (q, r1) # rest" "template_of (prompt q) = Translate"
      "set (templates rest) \<subseteq> {Review, Refine}"
      "Review \<in> set (templates rest) \<longleftrightarrow>
          (\<exists>t. r1 = Inr t) \<and> \<not> skip_review s \<and> int (length text) \<ge> min_review_chars s"
    by auto
  have "\<exists>l. call_log s' = call_log sb @ l \<and> set (templates l) \<subseteq> {Context, Glossary}"
  proof (cases rb)
    case (Inl e)
    with assms b have "s' = sb" by (simp add: translate_batch_def Let_def)
    then show ?thesis by (simp add: templates_def)
  next
    case (Inr translation)
    obtain r2 s2 where m: "maybe_update_context_glossary loads cl text
        (reassemble text translation) sb = (r2, s2)"
      by (cases "maybe_update_context_glossary loads cl text (reassemble text translation) sb")
    with assms b Inr have "s' = s2"
      by (auto simp: translate_batch_def Let_def split: sum.splits)
    with maybe_update_frame(6) [OF m] show ?thesis by simp
  qed
  then obtain l2 where "call_log s' = call_log sb @ l2" "set (templates l2) \<subseteq> {Context, Glossary}"
    by blast
  with l have "call_log s' = call_log s @ (q, r1) # (rest @ l2)"
    "Translate \<notin> set (templates (rest @ l2))"
    "Review \<in> set (templates (rest @ l2)) \<longleftrightarrow> Review \<in> set (templates rest)"
    by (auto simp: templates_def)
  with l show ?thesis by blast
qed

text \<open>
  Claim C4, amended. For every batch unit, a review call is issued if and only if the
  translate call returned, review is not globally disabled, and the batch's total character
  count is at or above the minimum-review-character threshold.
\<close>

theorem batch_review_gate:
  "is_batch text \<longrightarrow>
     (Review \<in> set (templates (new_calls s (snd (translate loads cl text s)))) \<longleftrightarrow>
        (\<exists>q t. (q, Inr t) \<in> set (new_calls s (snd (translate loads cl text s)))
            \<and> template_of (prompt q) = Translate)
        \<and> \<not> skip_review s \<and> int (length text) \<ge> min_review_chars s)"
proof
  assume h: "is_batch text"
  let ?s0 = "s\<lparr>chunk_counter := chunk_counter s + 1\<rparr>"
  let ?new = "new_calls s (snd (translate loads cl text s))"
  have t: "translate loads cl text s = translate_batch loads cl text ?s0"
    using h by (simp add: translate_def Let_def)
  obtain r s' where p: "translate_batch loads cl text ?s0 = (r, s')"
    by (cases "translate_batch loads cl text ?s0")
  from translate_batch_log [OF p] obtain q r1 rest where
    l: "call_log s' = call_log s @ (q, r1) # rest" "template_of (prompt q) = Translate"
      "Translate \<notin> set (templates rest)"
      "Review \<in> set (templates rest) \<longleftrightarrow>
          (\<exists>t. r1 = Inr t) \<and> \<not> skip_review s \<and> int (length text) \<ge> min_review_chars s"
    by auto
  have n: "?new = (q, r1) # rest" using t p l(1) by (simp add: new_calls_def)
  have "(\<exists>q' t. (q', Inr t) \<in> set ?new \<and> template_of (prompt q') = Translate)
      \<longleftrightarrow> (\<exists>t. r1 = Inr t)"
  proof
    assume "\<exists>q' t. (q', Inr t) \<in> set ?new \<and> template_of (prompt q') = Translate"
    then obtain q' t where m: "(q', Inr t) \<in> set ?new" "template_of (prompt q') = Translate"
      by blast
    have "(q', Inr t) \<notin> set rest"
    proof
      assume "(q', Inr t) \<in> set rest"
      then have "template_of (prompt q') \<in> set (templates rest)"
        by (force simp: templates_def)
      with m(2) l(3) show False by simp
    qed
    with m(1) n show "\<exists>t. r1 = Inr t" by auto
  next
    assume "\<exists>t. r1 = Inr t"
    with n l(2) show "\<exists>q' t. (q', Inr t) \<in> set ?new \<and> template_of (prompt q') = Translate"
      by auto
  qed
  moreover have "Review \<in> set (templates ?new) \<longleftrightarrow> Review \<in> set (templates rest)"
    using n l(2) by (simp add: templates_def)
  ultimately show "Review \<in> set (templates ?new) \<longleftrightarrow>
        (\<exists>q t. (q, Inr t) \<in> set ?new \<and> template_of (prompt q) = Translate)
        \<and> \<not> skip_review s \<and> int (length text) \<ge> min_review_chars s"
    using l(4) by blast
qed

lemmas batch_defs = translate_def translate_batch_def batch_passes_def pass1_def pass2_def
  pass3_def api_call_always is_batch_def is_quality_ok_def reassemble_def batch_parts_def
  new_calls_def templates_def

theorem batch_review_gate_witness:
  "is_batch [65, 10, 66] \<and> \<not> skip_review review_all
   \<and> int (length [65 :: nat, 10, 66]) \<ge> min_review_chars review_all
   \<and> templates (new_calls review_all
        (snd (translate no_json (always (str ''QUALITY_OK'')) [65, 10, 66] review_all)))
       = [Translate, Review]
   \<and> (\<exists>q t. (q, Inr t) \<in> set (new_calls review_all
          (snd (translate no_json (always (str ''QUALITY_OK'')) [65, 10, 66] review_all)))
        \<and> template_of (prompt q) = Translate)"
proof -
  let ?new = "new_calls review_all
     (snd (translate no_json (always (str ''QUALITY_OK'')) [65, 10, 66] review_all))"
  have h: "is_batch [65, 10, 66]" "\<not> skip_review review_all"
    "int (length [65 :: nat, 10, 66]) \<ge> min_review_chars review_all"
    by (simp_all add: is_batch_def review_all_def init_defs string_defs)
  have e: "templates ?new = [Translate, Review]"
    by (simp add: batch_defs review_all_def init_defs refresh_defs string_defs Let_def)
  then have "Review \<in> set (templates ?new)" by simp
  with batch_review_gate [of "[65, 10, 66]" review_all no_json "always (str ''QUALITY_OK'')"] h
  have "\<exists>q t. (q, Inr t) \<in> set ?new \<and> template_of (prompt q) = Translate" by blast
  with h e show ?thesis by blast
qed

text \<open>
  The claim as stated fails when review is globally disabled: the batch is at the
  threshold and no review call is issued.
\<close>

theorem batch_review_gate_counterexample:
  "is_batch [65, 10, 66]
   \<and> int (length [65 :: nat, 10, 66]) \<ge> min_review_chars (no_review\<lparr>min_review_chars := 0\<rparr>)
   \<and> Review \<notin> set (templates (new_calls (no_review\<lparr>min_review_chars := 0\<rparr>)
        (snd (translate no_json (always [88]) [65, 10, 66]
           (no_review\<lparr>min_review_chars := 0\<rparr>)))))"
  by (simp add: batch_defs no_review_def init_defs refresh_defs string_defs Let_def)

section \<open>C7: the full 3-pass path\<close>











section \<open>C6: retry and backoff\<close>

text \<open>
  Claim C6. The call layer tries a completion call at most 5 times. After failed attempt
  \<open>i\<close> (of the first four) it sleeps \<open>min(60, 2^i * base)\<close> seconds, where \<open>base\<close> is 5
  when the error looks rate-limit-related and 3 otherwise. A call that fails 4 times and
  then succeeds returns the text of the successful response and adds exactly 1 to the
  request counter. A call whose 5 attempts all fail raises the error of the fifth attempt
  and leaves the request counter alone.
\<close>

theorem api_call_retry:
  "(\<exists>r s'. api_call cl req 5 s = (r, s') \<and> attempts s' \<le> attempts s + 5)
   \<and> backoff_wait i err msg = min 60 (2 ^ i * (if contains err (str ''RateLimit'')
        \<or> contains (lower msg) (str ''rate'') then 5 else 3))
   \<and> ((\<forall>i < 4. cl (attempts s + i) req = Raise (ty i) (ms i))
        \<and> cl (attempts s + 4) req = Respond resp \<longrightarrow>
       fst (api_call cl req 5 s) = Inr (response_text resp)
       \<and> total_requests (snd (api_call cl req 5 s)) = total_requests s + 1
       \<and> attempts (snd (api_call cl req 5 s)) = attempts s + 5
       \<and> sleep_log (snd (api_call cl req 5 s)) = sleep_log s @
           [backoff_wait 0 (ty 0) (ms 0), backoff_wait 1 (ty 1) (ms 1),
            backoff_wait 2 (ty 2) (ms 2), backoff_wait 3 (ty 3) (ms 3)])
   \<and> ((\<forall>i < 5. cl (attempts s + i) req = Raise (ty i) (ms i)) \<longrightarrow>
       fst (api_call cl req 5 s) = Inl (ClientError (ty 4) (ms 4))
       \<and> total_requests (snd (api_call cl req 5 s)) = total_requests s
       \<and> attempts (snd (api_call cl req 5 s)) = attempts s + 5
       \<and> sleep_log (snd (api_call cl req 5 s)) = sleep_log s @
           [backoff_wait 0 (ty 0) (ms 0), backoff_wait 1 (ty 1) (ms 1),
            backoff_wait 2 (ty 2) (ms 2), backoff_wait 3 (ty 3) (ms 3)])"
proof (intro conjI impI)
  obtain r s1 where loop: "api_loop cl req 5 [0..<5] s = (r, s1)"
    by (cases "api_loop cl req 5 [0..<5] s")
  then have "attempts s1 \<le> attempts s + 5"
    using api_loop_attempts [OF loop] by simp
  with loop show "\<exists>r s'. api_call cl req 5 s = (r, s') \<and> attempts s' \<le> attempts s + 5"
    by (simp add: api_call_def)
  show "backoff_wait i err msg = min 60 (2 ^ i * (if contains err (str ''RateLimit'')
        \<or> contains (lower msg) (str ''rate'') then 5 else 3))"
    by (simp add: backoff_wait_def)
next
  assume a: "(\<forall>i < 4. cl (attempts s + i) req = Raise (ty i) (ms i))
        \<and> cl (attempts s + 4) req = Respond resp"
  then have c: "cl (attempts s) req = Raise (ty 0) (ms 0)"
    "cl (Suc (attempts s)) req = Raise (ty 1) (ms 1)"
    "cl (Suc (Suc (attempts s))) req = Raise (ty 2) (ms 2)"
    "cl (Suc (Suc (Suc (attempts s)))) req = Raise (ty 3) (ms 3)"
    "cl (Suc (Suc (Suc (Suc (attempts s))))) req = Respond resp"
    using a [THEN conjunct1, rule_format, of 0] a [THEN conjunct1, rule_format, of 1]
      a [THEN conjunct1, rule_format, of 2] a [THEN conjunct1, rule_format, of 3]
    by (simp_all add: eval_nat_numeral)
  show "fst (api_call cl req 5 s) = Inr (response_text resp)"
    and "total_requests (snd (api_call cl req 5 s)) = total_requests s + 1"
    and "attempts (snd (api_call cl req 5 s)) = attempts s + 5"
    and "sleep_log (snd (api_call cl req 5 s)) = sleep_log s @
           [backoff_wait 0 (ty 0) (ms 0), backoff_wait 1 (ty 1) (ms 1),
            backoff_wait 2 (ty 2) (ms 2), backoff_wait 3 (ty 3) (ms 3)]"
    using c by (simp_all add: api_call_def upt5 Let_def)
next
  assume a: "\<forall>i < 5. cl (attempts s + i) req = Raise (ty i) (ms i)"
  have c: "cl (attempts s) req = Raise (ty 0) (ms 0)"
    "cl (Suc (attempts s)) req = Raise (ty 1) (ms 1)"
    "cl (Suc (Suc (attempts s))) req = Raise (ty 2) (ms 2)"
    "cl (Suc (Suc (Suc (attempts s)))) req = Raise (ty 3) (ms 3)"
    "cl (Suc (Suc (Suc (Suc (attempts s))))) req = Raise (ty 4) (ms 4)"
    using a [rule_format, of 0] a [rule_format, of 1] a [rule_format, of 2]
      a [rule_format, of 3] a [rule_format, of 4]
    by (simp_all add: eval_nat_numeral)
  show "fst (api_call cl req 5 s) = Inl (ClientError (ty 4) (ms 4))"
    and "total_requests (snd (api_call cl req 5 s)) = total_requests s"
    and "attempts (snd (api_call cl req 5 s)) = attempts s + 5"
    and "sleep_log (snd (api_call cl req 5 s)) = sleep_log s @
           [backoff_wait 0 (ty 0) (ms 0), backoff_wait 1 (ty 1) (ms 1),
            backoff_wait 2 (ty 2) (ms 2), backoff_wait 3 (ty 3) (ms 3)]"
    using c by (simp_all add: api_call_def upt5 Let_def)
qed

theorem api_call_retry_witness:
  "flaky (attempts (init False False []) + 3) some_request
       = Raise (str ''APIStatusError'') (str ''Rate limit hit'')
   \<and> flaky (attempts (init False False []) + 4) some_request = Respond (reply (str ''OK''))
   \<and> fst (api_call flaky some_request 5 (init False False [])) = Inr (str ''OK'')
   \<and> total_requests (snd (api_call flaky some_request 5 (init False False []))) = 1
   \<and> sleep_log (snd (api_call flaky some_request 5 (init False False []))) = [5, 10, 20, 40]
   \<and> broken (attempts (init False False []) + 4) some_request
       = Raise (str ''APIConnectionError'') (str ''Connection reset'')
   \<and> fst (api_call broken some_request 5 (init False False []))
       = Inl (ClientError (str ''APIConnectionError'') (str ''Connection reset''))
   \<and> total_requests (snd (api_call broken some_request 5 (init False False []))) = 0
   \<and> sleep_log (snd (api_call broken some_request 5 (init False False []))) = [3, 6, 12, 24]"
proof -
  let ?s = "init False False []"
  have f: "\<forall>i < 4. flaky (attempts ?s + i) some_request
       = Raise (str ''APIStatusError'') (str ''Rate limit hit'')"
    and g: "flaky (attempts ?s + 4) some_request = Respond (reply (str ''OK''))"
    by (simp_all add: flaky_def init_def)
  have b: "\<forall>i < 5. broken (attempts ?s + i) some_request
       = Raise (str ''APIConnectionError'') (str ''Connection reset'')"
    by (simp add: broken_def)
  have w5: "backoff_wait i (str ''APIStatusError'') (str ''Rate limit hit'') = min 60 (2 ^ i * 5)"
    and w3: "backoff_wait i (str ''APIConnectionError'') (str ''Connection reset'')
       = min 60 (2 ^ i * 3)" for i
    by (simp_all add: backoff_wait_def lower_def str_def)
  have t: "response_text (reply (str ''OK'')) = str ''OK''"
    by (simp add: reply_def response_text_def)
  have i: "total_requests ?s = 0" "sleep_log ?s = []"
    by (simp_all add: init_def)
  note r = api_call_retry [of flaky some_request ?s 0 "[]" "[]"
      "\<lambda>i. str ''APIStatusError''" "\<lambda>i. str ''Rate limit hit''" "reply (str ''OK'')"]
  note q = api_call_retry [of broken some_request ?s 0 "[]" "[]"
      "\<lambda>i. str ''APIConnectionError''" "\<lambda>i. str ''Connection reset''" "reply []"]
  have "fst (api_call flaky some_request 5 ?s) = Inr (str ''OK'')"
    and "total_requests (snd (api_call flaky some_request 5 ?s)) = 1"
    and "sleep_log (snd (api_call flaky some_request 5 ?s)) = [5, 10, 20, 40]"
    using r f g by (simp_all add: w5 t i)
  moreover have "fst (api_call broken some_request 5 ?s)
       = Inl (ClientError (str ''APIConnectionError'') (str ''Connection reset''))"
    and "total_requests (snd (api_call broken some_request 5 ?s)) = 0"
    and "sleep_log (snd (api_call broken some_request 5 ?s)) = [3, 6, 12, 24]"
    using q b by (simp_all add: w3 i)
  ultimately show ?thesis using f g b by simp
qed

section \<open>C9: the glossary snapshot\<close>

lemma sorted_map_fst:
  "sorted (xs :: ('a::linorder \<times> 'b::linorder) list) \<Longrightarrow> sorted (map fst xs)"
  by (induction xs) (auto simp: less_eq_prod_def)

text \<open>
  Claim C9. For every glossary store, the formatted snapshot is the newline-join of at
  most 60 lines \<open>"  source (arrow) target"\<close>, rendered from entries of the store in the
  order of their source keys, and no rendered entry has a source key that starts with the
  reserved marker, whatever the store holds.
\<close>

theorem format_glossary_snapshot:
  "\<exists>es. format_glossary s = join [NL] (map glossary_line es)
      \<and> length es \<le> 60
      \<and> sorted (map fst es)
      \<and> set es \<subseteq> set (glossary s)
      \<and> (\<forall>e \<in> set es. \<not> startswith (fst e) (str ''_''))"
proof (cases "glossary s = []")
  case True
  then have "format_glossary s = join [NL] (map glossary_line [])"
    by (simp add: format_glossary_def)
  then show ?thesis by (intro exI [of _ "[]"]) simp
next
  case False
  let ?es = "take 60 (filter (\<lambda>e. \<not> startswith (fst e) (str ''_'')) (sort (glossary s)))"
  have "format_glossary s = join [NL] (map glossary_line ?es)"
    using False by (simp add: format_glossary_def take_map)
  moreover have "length ?es \<le> 60" by simp
  moreover have "sorted (map fst ?es)"
  proof -
    have "sorted (filter (\<lambda>e. \<not> startswith (fst e) (str ''_'')) (sort (glossary s)))"
      by (rule sorted_wrt_filter) simp
    then have "sorted ?es" by (rule sorted_wrt_take)
    then show ?thesis by (rule sorted_map_fst)
  qed
  moreover have "set ?es \<subseteq> set (glossary s)"
    by (auto dest: in_set_takeD)
  moreover have "\<forall>e \<in> set ?es. \<not> startswith (fst e) (str ''_'')"
    by (auto dest: in_set_takeD)
  ultimately show ?thesis by blast
qed

theorem format_glossary_snapshot_witness:
  "format_glossary marked_glossary
     = str ''  a '' @ [8594] @ str '' d'' @ [NL] @ str ''  b '' @ [8594] @ str '' c''
   \<and> (\<exists>es. format_glossary marked_glossary = join [NL] (map glossary_line es)
      \<and> length es \<le> 60
      \<and> sorted (map fst es)
      \<and> set es \<subseteq> set (glossary marked_glossary)
      \<and> (\<forall>e \<in> set es. \<not> startswith (fst e) (str ''_'')))"
proof -
  have "format_glossary marked_glossary
     = str ''  a '' @ [8594] @ str '' d'' @ [NL] @ str ''  b '' @ [8594] @ str '' c''"
    by (simp add: format_glossary_def marked_glossary_def glossary_line_def string_defs
        less_eq_prod_def)
  then show ?thesis using format_glossary_snapshot [of marked_glossary] by blast
qed

section \<open>C1: batch reassembly\<close>

lemma batch_passes_result:
  assumes "batch_passes cl d n tc s = (Inr t, s')"
  shows "\<exists>pre q post. call_log s' = call_log s @ pre @ (q, Inr t) # post
     \<and> template_of (prompt q) \<in> {Translate, Refine}
     \<and> set (templates post) \<subseteq> {Review}"
proof -
  obtain r1 s1 where p1: "pass1 cl d (Some n) s = (r1, s1)"
    by (cases "pass1 cl d (Some n) s")
  then obtain q1 where a1: "api_call cl q1 5 s = (r1, s1)" "template_of (prompt q1) = Translate"
    by (auto simp: pass1_def)
  note f1 = api_call_all [OF a1(1)]
  show ?thesis
  proof (cases r1)
    case (Inl e)
    with assms p1 show ?thesis by (simp add: batch_passes_def)
  next
    case (Inr translation)
    show ?thesis
    proof (cases "\<not> skip_review s1 \<and> int tc \<ge> min_review_chars s1")
      case False
      with assms p1 Inr have "s' = s1" "t = translation" by (auto simp: batch_passes_def)
      with f1 a1(2) Inr have "call_log s' = call_log s @ [] @ (q1, Inr t) # []"
        "template_of (prompt q1) \<in> {Translate, Refine}" "set (templates []) \<subseteq> {Review}"
        by (simp_all add: templates_def)
      then show ?thesis by blast
    next
      case True
      obtain r2 s2 where p2: "pass2 cl d translation True s1 = (r2, s2)"
        by (cases "pass2 cl d translation True s1")
      then obtain q2 where a2: "api_call cl q2 5 s1 = (r2, s2)" "template_of (prompt q2) = Review"
        by (auto simp: pass2_def)
      note f2 = api_call_all [OF a2(1)]
      show ?thesis
      proof (cases r2)
        case (Inl e)
        with assms p1 p2 Inr True show ?thesis by (auto simp: batch_passes_def)
      next
        case rv: (Inr review)
        show ?thesis
        proof (cases "is_quality_ok review")
          case ok: True
          with assms p1 p2 Inr True rv have "s' = s2\<lparr>reviews_ok := reviews_ok s2 + 1\<rparr>"
            "t = translation"
            by (auto simp: batch_passes_def)
          with f1 f2 a1(2) a2(2) Inr rv
          have "call_log s' = call_log s @ [] @ (q1, Inr t) # [(q2, Inr review)]"
            "template_of (prompt q1) \<in> {Translate, Refine}"
            "set (templates [(q2, Inr review)]) \<subseteq> {Review}"
            by (simp_all add: templates_def)
          then show ?thesis by blast
        next
          case nok: False
          let ?s2 = "s2\<lparr>reviews_fixed := reviews_fixed s2 + 1\<rparr>"
          from assms p1 p2 Inr True rv nok
          have "pass3 cl d translation review (Some n) ?s2 = (Inr t, s')"
            by (auto simp: batch_passes_def)
          then obtain q3 where a3: "api_call cl q3 5 ?s2 = (Inr t, s')"
            "template_of (prompt q3) = Refine"
            by (auto simp: pass3_def)
          from api_call_all [OF a3(1)] a3(2) f1 f2
          have "call_log s' = call_log s @ [(q1, r1), (q2, r2)] @ (q3, Inr t) # []"
            "template_of (prompt q3) \<in> {Translate, Refine}" "set (templates []) \<subseteq> {Review}"
            by (simp_all add: templates_def)
          then show ?thesis by blast
        qed
      qed
    qed
  qed
qed

lemma translate_batch_reassembles:
  assumes "translate_batch loads cl text s = (Inr out, s')"
  shows "\<exists>pre q translation post. new_calls s s' = pre @ (q, Inr translation) # post
     \<and> template_of (prompt q) \<in> {Translate, Refine}
     \<and> set (templates post) \<subseteq> {Review, Context, Glossary}
     \<and> out = reassemble text translation"
proof -
  let ?s0 = "s\<lparr>full_3pass_count := full_3pass_count s + 1\<rparr>"
  let ?d = "join ([NL] @ PARA_DELIMITER @ [NL]) (split_str [NL] text)"
  let ?n = "length (split_str [NL] text)"
  obtain rb sb where b: "batch_passes cl ?d ?n (length text) ?s0 = (rb, sb)"
    by (cases "batch_passes cl ?d ?n (length text) ?s0")
  obtain translation where rb: "rb = Inr translation"
    using assms b by (cases rb) (auto simp: translate_batch_def Let_def)
  obtain r2 s2 where m: "maybe_update_context_glossary loads cl text
      (reassemble text translation) sb = (r2, s2)"
    by (cases "maybe_update_context_glossary loads cl text (reassemble text translation) sb")
  from assms b rb m have e: "s' = s2" "out = reassemble text translation"
    by (auto simp: translate_batch_def Let_def split: sum.splits)
  from batch_passes_result [OF b [unfolded rb]] obtain pre q post where
    l: "call_log sb = call_log s @ pre @ (q, Inr translation) # post"
      "template_of (prompt q) \<in> {Translate, Refine}" "set (templates post) \<subseteq> {Review}"
    by auto
  obtain l2 where l2: "call_log s2 = call_log sb @ l2" "set (templates l2) \<subseteq> {Context, Glossary}"
    using maybe_update_frame(6) [OF m] by blast
  have "new_calls s s' = pre @ (q, Inr translation) # (post @ l2)"
    using l(1) l2(1) e(1) by (simp add: new_calls_def)
  moreover have "set (templates (post @ l2)) \<subseteq> {Review, Context, Glossary}"
    using l(3) l2(2) by (auto simp: templates_def)
  ultimately show ?thesis using l(2) e(2) by blast
qed


text \<open>
  Claim C1. For a batch unit of \<open>n\<close> paragraphs (\<open>n\<close> from splitting the unit on the newline)
  and any model output, the reassembled result has exactly \<open>n\<close> newline-separated segments.
  The segments of the output are the pieces between the delimiters that are not empty once
  stripped, each stripped and with its newlines turned into spaces; \<open>m\<close> is their number.
  When \<open>m = n\<close> the segments are the result's lines one to one; when \<open>m > n\<close> the segments
  from position \<open>n - 1\<close> on are merged, joined by spaces, into the last line; when \<open>m < n\<close>
  the missing positions hold the original paragraphs of those positions. Whatever
  \<open>_translate_batch\<close> returns is the reassembly of the reply to its last translate or refine
  call, and has \<open>n\<close> segments.
\<close>

theorem batch_reassembly_segments:
  "(let paragraphs = split_str [NL] text; n = length paragraphs;
        segments = filter (\<lambda>p. strip p \<noteq> []) (split_str PARA_DELIMITER translation);
        m = length segments;
        parts = map (\<lambda>p. replace_char NL SP (strip p)) segments
    in split_str [NL] (reassemble text translation) =
         (if m = n then parts
          else if m > n then take (n - 1) parts @ [join [SP] (drop (n - 1) parts)]
          else parts @ drop m paragraphs)
       \<and> length (split_str [NL] (reassemble text translation)) = n)
   \<and> (fst (translate_batch loads cl text s) = Inr out \<longrightarrow>
        length (split_str [NL] out) = length (split_str [NL] text)
        \<and> (\<exists>pre q reply post.
             new_calls s (snd (translate_batch loads cl text s)) = pre @ (q, Inr reply) # post
             \<and> template_of (prompt q) \<in> {Translate, Refine}
             \<and> set (templates post) \<subseteq> {Review, Context, Glossary}
             \<and> out = reassemble text reply))"
proof (intro conjI impI)
  have "split_str [NL] (reassemble text translation) =
     (let paragraphs = split_str [NL] text; n = length paragraphs;
          parts = batch_parts translation; m = length parts
      in if m = n then parts
         else if m > n then take (n - 1) parts @ [join [SP] (drop (n - 1) parts)]
         else parts @ drop m paragraphs)"
    by (rule reassemble_segments)
  moreover have "length (split_str [NL] (reassemble text translation)) = length (split_str [NL] text)"
    by (rule reassemble_count)
  ultimately show "let paragraphs = split_str [NL] text; n = length paragraphs;
        segments = filter (\<lambda>p. strip p \<noteq> []) (split_str PARA_DELIMITER translation);
        m = length segments;
        parts = map (\<lambda>p. replace_char NL SP (strip p)) segments
    in split_str [NL] (reassemble text translation) =
         (if m = n then parts
          else if m > n then take (n - 1) parts @ [join [SP] (drop (n - 1) parts)]
          else parts @ drop m paragraphs)
       \<and> length (split_str [NL] (reassemble text translation)) = n"
    by (simp add: batch_parts_def Let_def)
next
  assume "fst (translate_batch loads cl text s) = Inr out"
  then have t: "translate_batch loads cl text s = (Inr out, snd (translate_batch loads cl text s))"
    by (metis prod.collapse)
  from translate_batch_reassembles [OF t]
  show "\<exists>pre q reply post.
             new_calls s (snd (translate_batch loads cl text s)) = pre @ (q, Inr reply) # post
             \<and> template_of (prompt q) \<in> {Translate, Refine}
             \<and> set (templates post) \<subseteq> {Review, Context, Glossary}
             \<and> out = reassemble text reply" .
  then obtain reply where "out = reassemble text reply" by blast
  then show "length (split_str [NL] out) = length (split_str [NL] text)"
    by (simp add: reassemble_count)
qed

lemma translate_batch_example:
  "fst (translate_batch loads (always (str ''X|||PARA|||Y'')) [65, 10, 66, 10, 67] no_review)
     = Inr [88, 10, 89, 10, 67]"
  by (simp add: translate_batch_def batch_passes_def pass1_def api_call_always no_review_def
      init_defs refresh_defs reassemble_def batch_parts_def string_defs Let_def)

lemma split_three_lines: "split_str [NL] [65, 10, 66, 10, 67] = [[65], [66], [67]]"
  by (simp add: string_defs)

theorem batch_reassembly_segments_witness:
  "fst (translate_batch no_json (always (str ''X|||PARA|||Y'')) [65, 10, 66, 10, 67] no_review)
     = Inr [88, 10, 89, 10, 67]
   \<and> length (split_str [NL] [88, 10, 89, 10, 67]) = 3
   \<and> split_str [NL] (reassemble [65, 10, 66, 10, 67] (str ''X|||PARA|||Y'')) = [[88], [89], [67]]
   \<and> split_str [NL] (reassemble [65, 10, 66, 10, 67] (str ''X|||PARA||| |||PARA|||Y|||PARA|||Z''))
       = [[88], [89], [90]]
   \<and> split_str [NL] (reassemble [65, 10, 66, 10, 67] (str ''X|||PARA|||Y|||PARA|||Z|||PARA|||W''))
       = [[88], [89], [90, 32, 87]]"
proof -
  have h: "fst (translate_batch no_json (always (str ''X|||PARA|||Y'')) [65, 10, 66, 10, 67] no_review)
     = Inr [88, 10, 89, 10, 67]"
    by (rule translate_batch_example)
  have n: "length (split_str [NL] [88, 10, 89, 10, 67]) = 3"
    using batch_reassembly_segments [of "[65, 10, 66, 10, 67]" "[]" no_json
        "always (str ''X|||PARA|||Y'')" no_review "[88, 10, 89, 10, 67]"] h
    by (simp add: split_three_lines)
  have less: "split_str [NL] (reassemble [65, 10, 66, 10, 67] (str ''X|||PARA|||Y''))
      = [[88], [89], [67]]"
    using batch_reassembly_segments [of "[65, 10, 66, 10, 67]" "str ''X|||PARA|||Y''" no_json
        "always []" no_review "[]"]
    by (simp add: split_three_lines string_defs Let_def)
  have eq: "split_str [NL] (reassemble [65, 10, 66, 10, 67]
        (str ''X|||PARA||| |||PARA|||Y|||PARA|||Z'')) = [[88], [89], [90]]"
    using batch_reassembly_segments [of "[65, 10, 66, 10, 67]"
        "str ''X|||PARA||| |||PARA|||Y|||PARA|||Z''" no_json "always []" no_review "[]"]
    by (simp add: split_three_lines string_defs Let_def)
  have more: "split_str [NL] (reassemble [65, 10, 66, 10, 67]
        (str ''X|||PARA|||Y|||PARA|||Z|||PARA|||W'')) = [[88], [89], [90, 32, 87]]"
    using batch_reassembly_segments [of "[65, 10, 66, 10, 67]"
        "str ''X|||PARA|||Y|||PARA|||Z|||PARA|||W''" no_json "always []" no_review "[]"]
    by (simp add: split_three_lines string_defs Let_def)
  from h n less eq more show ?thesis by simp
qed

section \<open>C10: which units are batches\<close>

lemma strip_padded:
  assumes "\<forall>c \<in> set pre. isspace c" and "\<forall>c \<in> set post. isspace c"
  shows "strip (pre @ core @ post) = strip core"
proof -
  have a: "dropWhile isspace (pre @ core @ post) = dropWhile isspace (core @ post)"
    using assms(1) by (simp add: dropWhile_append2)
  show ?thesis
  proof (cases "\<exists>x \<in> set core. \<not> isspace x")
    case True
    then have "dropWhile isspace (core @ post) = dropWhile isspace core @ post"
      by (auto simp: dropWhile_append1)
    moreover have "dropWhile isspace (rev post @ rev (dropWhile isspace core))
        = dropWhile isspace (rev (dropWhile isspace core))"
      by (rule dropWhile_append2) (use assms(2) in simp)
    ultimately show ?thesis using a by (simp add: strip_def)
  next
    case False
    then have c: "dropWhile isspace core = []" by (simp add: dropWhile_eq_Nil_conv)
    have "dropWhile isspace (core @ post) = dropWhile isspace post"
      by (rule dropWhile_append2) (use False in simp)
    moreover have "dropWhile isspace post = []"
      using assms(2) by (simp add: dropWhile_eq_Nil_conv)
    ultimately have "dropWhile isspace (pre @ core @ post) = []" using a by (simp only:)
    then show ?thesis by (simp only: strip_def c)
  qed
qed

lemma set_strip: "set (strip x) \<subseteq> set x"
proof -
  have "set (dropWhile isspace (rev (dropWhile isspace x))) \<subseteq> set (rev (dropWhile isspace x))"
    by (auto dest: set_dropWhileD)
  also have "\<dots> \<subseteq> set x" by (auto dest: set_dropWhileD)
  finally show ?thesis by (simp add: strip_def)
qed

lemma split_from_trailing:
  "split_from [c] acc (t @ [c]) = split_from [c] acc t @ [[]]"
  by (induction t arbitrary: acc) auto

lemma batch_passes_first:
  assumes "batch_passes cl d n tc s = (r, s')"
  shows "\<exists>q r1 rest. call_log s' = call_log s @ (q, r1) # rest
     \<and> (\<exists>g c. prompt q = TranslateReq g c (Some n) d)"
proof -
  obtain r1 s1 where p1: "pass1 cl d (Some n) s = (r1, s1)"
    by (cases "pass1 cl d (Some n) s")
  then obtain q1 where a1: "api_call cl q1 5 s = (r1, s1)"
    "\<exists>g c. prompt q1 = TranslateReq g c (Some n) d"
    by (auto simp: pass1_def)
  note f1 = api_call_all [OF a1(1)]
  from batch_passes_log [OF assms] obtain q r0 rest where
    l: "call_log s' = call_log s @ (q, r0) # rest" by blast
  have "\<exists>more. call_log s' = call_log s1 @ more"
    using assms p1
    by (auto simp: batch_passes_def pass2_def pass3_def
        split: sum.splits if_splits prod.splits dest!: api_call_all)
  then obtain more where "call_log s' = call_log s1 @ more" by blast
  with f1 have "call_log s' = call_log s @ (q1, r1) # more" by simp
  with a1(2) show ?thesis by blast
qed

lemma translate_batch_first:
  "\<exists>q r1 rest. new_calls s (snd (translate_batch loads cl text s)) = (q, r1) # rest
     \<and> (\<exists>g c. prompt q = TranslateReq g c (Some (length (split_str [NL] text)))
            (join ([NL] @ PARA_DELIMITER @ [NL]) (split_str [NL] text)))"
proof -
  let ?s0 = "s\<lparr>full_3pass_count := full_3pass_count s + 1\<rparr>"
  let ?d = "join ([NL] @ PARA_DELIMITER @ [NL]) (split_str [NL] text)"
  let ?n = "length (split_str [NL] text)"
  obtain rb sb where b: "batch_passes cl ?d ?n (length text) ?s0 = (rb, sb)"
    by (cases "batch_passes cl ?d ?n (length text) ?s0")
  from batch_passes_first [OF b] obtain q r1 rest where
    l: "call_log sb = call_log s @ (q, r1) # rest"
      "\<exists>g c. prompt q = TranslateReq g c (Some ?n) ?d"
    by auto
  have "\<exists>l. call_log (snd (translate_batch loads cl text s)) = call_log sb @ l"
  proof (cases rb)
    case (Inl e)
    with b show ?thesis by (simp add: translate_batch_def Let_def)
  next
    case (Inr translation)
    obtain r2 s2 where m: "maybe_update_context_glossary loads cl text
        (reassemble text translation) sb = (r2, s2)"
      by (cases "maybe_update_context_glossary loads cl text (reassemble text translation) sb")
    with b Inr have "snd (translate_batch loads cl text s) = s2"
      by (auto simp: translate_batch_def Let_def split: sum.splits)
    with maybe_update_frame(6) [OF m] show ?thesis by auto
  qed
  then obtain l2 where "call_log (snd (translate_batch loads cl text s)) = call_log sb @ l2"
    by blast
  with l(1) have "new_calls s (snd (translate_batch loads cl text s)) = (q, r1) # (rest @ l2)"
    by (simp add: new_calls_def)
  with l(2) show ?thesis by blast
qed


text \<open>
  Claim C10. The top-level translate operation treats a unit as a batch if and only if the
  unit stripped of leading and trailing white space contains a newline. A newline is white
  space, so a unit whose newlines all lie in its leading or trailing white space is
  dispatched as a single paragraph. A batch is split on the original, unstripped text: the
  paragraph count \<open>n\<close> named in the translate request, and kept by the result, is one more
  than the number of newlines of the unit, and a leading or trailing newline gives an empty
  first or last paragraph that is counted in \<open>n\<close>.
\<close>

theorem batch_classification:
  "translate loads cl text s =
     (if NL \<in> set (strip text)
        then translate_batch loads cl text (s\<lparr>chunk_counter := chunk_counter s + 1\<rparr>)
      else if int (length text) < min_review_chars s \<or> skip_review s
        then translate_pass1_only loads cl text (s\<lparr>chunk_counter := chunk_counter s + 1\<rparr>)
      else translate_3pass loads cl text (s\<lparr>chunk_counter := chunk_counter s + 1\<rparr>))
   \<and> isspace NL
   \<and> ((\<forall>c \<in> set pre. isspace c) \<and> (\<forall>c \<in> set post. isspace c) \<and> NL \<notin> set core
        \<longrightarrow> NL \<notin> set (strip (pre @ core @ post)))
   \<and> (\<exists>q r1 rest. new_calls s (snd (translate_batch loads cl text s)) = (q, r1) # rest
        \<and> (\<exists>g c. prompt q = TranslateReq g c (Some (Suc (count_list text NL)))
               (join ([NL] @ PARA_DELIMITER @ [NL]) (split_str [NL] text))))
   \<and> length (split_str [NL] text) = Suc (count_list text NL)
   \<and> split_str [NL] (NL # text) = [] # split_str [NL] text
   \<and> split_str [NL] (text @ [NL]) = split_str [NL] text @ [[]]
   \<and> (fst (translate_batch loads cl text s) = Inr out \<longrightarrow>
        length (split_str [NL] out) = Suc (count_list text NL))"
proof (intro conjI impI)
  show "translate loads cl text s =
     (if NL \<in> set (strip text)
        then translate_batch loads cl text (s\<lparr>chunk_counter := chunk_counter s + 1\<rparr>)
      else if int (length text) < min_review_chars s \<or> skip_review s
        then translate_pass1_only loads cl text (s\<lparr>chunk_counter := chunk_counter s + 1\<rparr>)
      else translate_3pass loads cl text (s\<lparr>chunk_counter := chunk_counter s + 1\<rparr>))"
    by (simp add: translate_def is_batch_def Let_def)
  show "isspace NL" by (simp add: isspace_def NL_def)
  show "length (split_str [NL] text) = Suc (count_list text NL)"
    by (rule length_split_str_char)
  show "split_str [NL] (NL # text) = [] # split_str [NL] text"
    by (simp add: split_str_def)
  show "split_str [NL] (text @ [NL]) = split_str [NL] text @ [[]]"
    by (simp add: split_str_def split_from_trailing)
  show "\<exists>q r1 rest. new_calls s (snd (translate_batch loads cl text s)) = (q, r1) # rest
        \<and> (\<exists>g c. prompt q = TranslateReq g c (Some (Suc (count_list text NL)))
               (join ([NL] @ PARA_DELIMITER @ [NL]) (split_str [NL] text)))"
    using translate_batch_first [of s loads cl "text"] by (simp only: length_split_str_char)
next
  assume "(\<forall>c \<in> set pre. isspace c) \<and> (\<forall>c \<in> set post. isspace c) \<and> NL \<notin> set core"
  then have "strip (pre @ core @ post) = strip core" "NL \<notin> set core"
    by (simp_all add: strip_padded)
  then show "NL \<notin> set (strip (pre @ core @ post))"
    using set_strip [of core] by auto
next
  assume "fst (translate_batch loads cl text s) = Inr out"
  then have "translate_batch loads cl text s = (Inr out, snd (translate_batch loads cl text s))"
    by (metis prod.collapse)
  from translate_batch_reassembles [OF this] obtain reply where "out = reassemble text reply"
    by blast
  then have "length (split_str [NL] out) = length (split_str [NL] text)"
    by (simp only: reassemble_count)
  then show "length (split_str [NL] out) = Suc (count_list text NL)"
    by (simp only: length_split_str_char [of NL "text"])
qed

lemma batch_example_leading:
  "fst (translate no_json (always (str ''X|||PARA|||Y|||PARA|||Z'')) [10, 65, 10, 66] no_review)
     = Inr [88, 10, 89, 10, 90]"
  by (simp add: batch_defs no_review_def init_defs refresh_defs string_defs Let_def)

theorem batch_classification_witness:
  "isspace 10 \<and> isspace 32 \<and> NL \<notin> set [65 :: nat]
   \<and> NL \<notin> set (strip [10, 32, 65, 10])
   \<and> translate no_json (always [88]) [10, 32, 65, 10] no_review
       = translate_pass1_only no_json (always [88]) [10, 32, 65, 10]
           (no_review\<lparr>chunk_counter := chunk_counter no_review + 1\<rparr>)
   \<and> NL \<in> set (strip [10, 65, 10, 66])
   \<and> translate no_json (always (str ''X|||PARA|||Y|||PARA|||Z'')) [10, 65, 10, 66] no_review
       = translate_batch no_json (always (str ''X|||PARA|||Y|||PARA|||Z'')) [10, 65, 10, 66]
           (no_review\<lparr>chunk_counter := chunk_counter no_review + 1\<rparr>)
   \<and> fst (translate no_json (always (str ''X|||PARA|||Y|||PARA|||Z'')) [10, 65, 10, 66] no_review)
       = Inr [88, 10, 89, 10, 90]
   \<and> split_str [NL] [10, 65, 10, 66] = [[], [65], [66]]
   \<and> length (split_str [NL] [88, 10, 89, 10, 90]) = 3"
proof -
  let ?s0 = "no_review\<lparr>chunk_counter := chunk_counter no_review + 1\<rparr>"
  let ?cl = "always (str ''X|||PARA|||Y|||PARA|||Z'')"
  have w: "isspace 10" "isspace 32" "NL \<notin> set [65 :: nat]"
    by (simp_all add: isspace_def NL_def)
  have sk: "skip_review no_review" by (simp add: no_review_def init_def)
  have "NL \<notin> set (strip ([10, 32] @ [65] @ [10]))"
    using batch_classification [of no_json "always [88]" "[]" no_review "[10, 32]" "[10]" "[65]" "[]"] w
    by simp
  then have a: "NL \<notin> set (strip [10, 32, 65, 10])" by simp
  have b: "translate no_json (always [88]) [10, 32, 65, 10] no_review
       = translate_pass1_only no_json (always [88]) [10, 32, 65, 10] ?s0"
    using batch_classification [of no_json "always [88]" "[10, 32, 65, 10]" no_review "[]" "[]" "[]" "[]"]
      a sk
    by simp
  have c: "NL \<in> set (strip [10, 65, 10, 66])" by (simp add: string_defs)
  have d: "translate no_json ?cl [10, 65, 10, 66] no_review
       = translate_batch no_json ?cl [10, 65, 10, 66] ?s0"
    using batch_classification [of no_json ?cl "[10, 65, 10, 66]" no_review "[]" "[]" "[]" "[]"] c
    by simp
  have e: "fst (translate_batch no_json ?cl [10, 65, 10, 66] ?s0) = Inr [88, 10, 89, 10, 90]"
    using batch_example_leading by (simp only: d)
  have f: "length (split_str [NL] [88, 10, 89, 10, 90]) = Suc (count_list [10, 65, 10, 66] NL)"
    using batch_classification [of no_json ?cl "[10, 65, 10, 66]" ?s0 "[]" "[]" "[]"
        "[88, 10, 89, 10, 90]"] e
    by blast
  have g: "Suc (count_list [10 :: nat, 65, 10, 66] NL) = 3" by (simp add: NL_def)
  have h: "split_str [NL] [10, 65, 10, 66] = [[], [65], [66]]" by (simp add: string_defs)
  from w a b c d batch_example_leading f g h show ?thesis by (simp only: simp_thms)
qed

section \<open>C2: reserved glossary keys\<close>

lemma keys_dict_update:
  "fst ` set (dict_update d items) = fst ` set d \<union> fst ` set items"
proof -
  have "fst ` set (fold (\<lambda>kv. AList.update (fst kv) (snd kv)) items d)
      = fst ` set d \<union> fst ` set items"
    by (induction items arbitrary: d) (auto simp: dom_update)
  then show ?thesis by (simp add: dict_update_def)
qed

lemma valid_terms_keys:
  "fst ` set (valid_terms items) \<subseteq> {k. \<not> startswith k (str ''_'')}"
  by (auto simp: valid_terms_def keys_dict_update split: json.splits if_splits)

lemma merge_response_keys:
  "fst ` set (glossary (merge_response loads resp s))
     \<subseteq> fst ` set (glossary s) \<union> {k. \<not> startswith k (str ''_'')}"
proof -
  have "\<And>items. fst ` set (dict_update (glossary s) (valid_terms items))
     \<subseteq> fst ` set (glossary s) \<union> {k. \<not> startswith k (str ''_'')}"
    using valid_terms_keys by (auto simp: keys_dict_update)
  then show ?thesis
    by (simp add: merge_response_def Let_def split: sum.splits json.splits)
qed

lemma glossary_refresh_keys:
  assumes "glossary_refresh loads cl orig tr s = (r, s')"
  shows "fst ` set (glossary s')
     \<subseteq> fst ` set (glossary s) \<union> {k. \<not> startswith k (str ''_'')}"
proof -
  let ?q = "\<lparr> prompt = GlossaryReq (take 2000 orig) (take 2000 tr),
             temperature = 0.1, max_tokens = 1024, use_cache = False \<rparr>"
  obtain r1 s1 where a: "api_call cl ?q 5 s = (r1, s1)" by (cases "api_call cl ?q 5 s")
  note f = api_call_frame(1) [OF a]
  consider (same) "s' = s" | (fail) "s' = s1\<lparr>glossary_extract_failures := glossary_extract_failures s1 + 1\<rparr>"
    | (merge) resp where "s' = merge_response loads resp s1"
    using assms a by (auto simp: glossary_refresh_def split: if_splits sum.splits)
  then show ?thesis
  proof cases
    case same
    then show ?thesis by auto
  next
    case fail
    with f show ?thesis by auto
  next
    case merge
    with f merge_response_keys [of loads resp s1] show ?thesis by simp
  qed
qed

lemma maybe_update_keys:
  assumes "maybe_update_context_glossary loads cl orig tr s = (r, s')"
  shows "fst ` set (glossary s')
     \<subseteq> fst ` set (glossary s) \<union> {k. \<not> startswith k (str ''_'')}"
proof -
  obtain r1 s1 where c: "context_refresh cl orig tr s = (r1, s1)"
    by (cases "context_refresh cl orig tr s")
  note cf = context_refresh_frame(1) [OF c]
  show ?thesis
  proof (cases r1)
    case (Inl e)
    with assms c have "s' = s1" by (simp add: maybe_update_context_glossary_def)
    with cf show ?thesis by auto
  next
    case (Inr u)
    with assms c have "glossary_refresh loads cl orig tr s1 = (r, s')"
      by (simp add: maybe_update_context_glossary_def)
    from glossary_refresh_keys [OF this] cf show ?thesis by simp
  qed
qed

lemma pass_glossary:
  "pass1 cl text b s = (r, s') \<Longrightarrow> glossary s' = glossary s"
  "pass2 cl text tr ib s = (r, s') \<Longrightarrow> glossary s' = glossary s"
  "pass3 cl text tr rv b s = (r, s') \<Longrightarrow> glossary s' = glossary s"
  by (auto simp: pass1_def pass2_def pass3_def dest: api_call_frame(1))

lemma translate_pass1_only_keys:
  assumes "translate_pass1_only loads cl text s = (r, s')"
  shows "fst ` set (glossary s')
     \<subseteq> fst ` set (glossary s) \<union> {k. \<not> startswith k (str ''_'')}"
proof -
  let ?s0 = "s\<lparr>pass1_only_count := pass1_only_count s + 1\<rparr>"
  obtain r1 s1 where p: "pass1 cl text None ?s0 = (r1, s1)" by (cases "pass1 cl text None ?s0")
  have g1: "glossary s1 = glossary s" using pass_glossary(1) [OF p] by simp
  show ?thesis
  proof (cases r1)
    case (Inl e)
    with assms p have "s' = s1" by (simp add: translate_pass1_only_def)
    with g1 show ?thesis by auto
  next
    case (Inr t)
    obtain r2 s2 where m: "maybe_update_context_glossary loads cl text t s1 = (r2, s2)"
      by (cases "maybe_update_context_glossary loads cl text t s1")
    with assms p Inr have "s' = s2" by (auto simp: translate_pass1_only_def split: sum.splits)
    with maybe_update_keys [OF m] g1 show ?thesis by simp
  qed
qed

lemma translate_3pass_keys:
  assumes "translate_3pass loads cl text s = (r, s')"
  shows "fst ` set (glossary s')
     \<subseteq> fst ` set (glossary s) \<union> {k. \<not> startswith k (str ''_'')}"
proof -
  let ?s0 = "s\<lparr>full_3pass_count := full_3pass_count s + 1\<rparr>"
  obtain r1 s1 where p1: "pass1 cl text None ?s0 = (r1, s1)" by (cases "pass1 cl text None ?s0")
  have g1: "glossary s1 = glossary s" using pass_glossary(1) [OF p1] by simp
  show ?thesis
  proof (cases r1)
    case (Inl e)
    with assms p1 have "s' = s1" by (simp add: translate_3pass_def)
    with g1 show ?thesis by auto
  next
    case t: (Inr t)
    obtain r2 s2 where p2: "pass2 cl text t False s1 = (r2, s2)"
      by (cases "pass2 cl text t False s1")
    have g2: "glossary s2 = glossary s" using pass_glossary(2) [OF p2] g1 by simp
    show ?thesis
    proof (cases r2)
      case (Inl e)
      with assms p1 t p2 have "s' = s2" by (simp add: translate_3pass_def)
      with g2 show ?thesis by auto
    next
      case rv: (Inr rv)
      show ?thesis
      proof (cases "is_quality_ok rv")
        case True
        let ?s2 = "s2\<lparr>reviews_ok := reviews_ok s2 + 1\<rparr>"
        obtain r3 s3 where m: "maybe_update_context_glossary loads cl text t ?s2 = (r3, s3)"
          by (cases "maybe_update_context_glossary loads cl text t ?s2")
        with assms p1 t p2 rv True have "s' = s3"
          by (auto simp: translate_3pass_def split: sum.splits)
        with maybe_update_keys [OF m] g2 show ?thesis by simp
      next
        case False
        let ?s2 = "s2\<lparr>reviews_fixed := reviews_fixed s2 + 1\<rparr>"
        obtain r3 s3 where p3: "pass3 cl text t rv None ?s2 = (r3, s3)"
          by (cases "pass3 cl text t rv None ?s2")
        have g3: "glossary s3 = glossary s" using pass_glossary(3) [OF p3] g2 by simp
        show ?thesis
        proof (cases r3)
          case (Inl e)
          with assms p1 t p2 rv False p3 have "s' = s3" by (simp add: translate_3pass_def)
          with g3 show ?thesis by auto
        next
          case (Inr refined)
          obtain r4 s4 where m: "maybe_update_context_glossary loads cl text refined s3 = (r4, s4)"
            by (cases "maybe_update_context_glossary loads cl text refined s3")
          with assms p1 t p2 rv False p3 Inr have "s' = s4"
            by (auto simp: translate_3pass_def split: sum.splits)
          with maybe_update_keys [OF m] g3 show ?thesis by simp
        qed
      qed
    qed
  qed
qed

lemma batch_passes_glossary:
  assumes "batch_passes cl d n tc s = (r, s')"
  shows "glossary s' = glossary s"
  using assms
  by (auto simp: batch_passes_def split: prod.splits sum.splits if_splits
      dest!: pass_glossary)

lemma translate_batch_keys:
  assumes "translate_batch loads cl text s = (r, s')"
  shows "fst ` set (glossary s')
     \<subseteq> fst ` set (glossary s) \<union> {k. \<not> startswith k (str ''_'')}"
proof -
  let ?s0 = "s\<lparr>full_3pass_count := full_3pass_count s + 1\<rparr>"
  let ?d = "join ([NL] @ PARA_DELIMITER @ [NL]) (split_str [NL] text)"
  let ?n = "length (split_str [NL] text)"
  obtain rb sb where b: "batch_passes cl ?d ?n (length text) ?s0 = (rb, sb)"
    by (cases "batch_passes cl ?d ?n (length text) ?s0")
  have g: "glossary sb = glossary s" using batch_passes_glossary [OF b] by simp
  show ?thesis
  proof (cases rb)
    case (Inl e)
    with assms b have "s' = sb" by (simp add: translate_batch_def Let_def)
    with g show ?thesis by auto
  next
    case (Inr translation)
    obtain r2 s2 where m: "maybe_update_context_glossary loads cl text
        (reassemble text translation) sb = (r2, s2)"
      by (cases "maybe_update_context_glossary loads cl text (reassemble text translation) sb")
    with assms b Inr have "s' = s2"
      by (auto simp: translate_batch_def Let_def split: sum.splits)
    with maybe_update_keys [OF m] g show ?thesis by simp
  qed
qed

lemma translate_keys:
  "fst ` set (glossary (snd (translate loads cl text s)))
     \<subseteq> fst ` set (glossary s) \<union> {k. \<not> startswith k (str ''_'')}"
proof -
  let ?s0 = "s\<lparr>chunk_counter := chunk_counter s + 1\<rparr>"
  have "translate loads cl text s = translate_batch loads cl text ?s0
      \<or> translate loads cl text s = translate_pass1_only loads cl text ?s0
      \<or> translate loads cl text s = translate_3pass loads cl text ?s0"
    by (simp add: translate_def Let_def)
  then consider (batch) "translate loads cl text s = translate_batch loads cl text ?s0"
    | (short) "translate loads cl text s = translate_pass1_only loads cl text ?s0"
    | (full) "translate loads cl text s = translate_3pass loads cl text ?s0"
    by blast
  then show ?thesis
  proof cases
    case batch
    have "translate_batch loads cl text ?s0
        = (fst (translate_batch loads cl text ?s0), snd (translate_batch loads cl text ?s0))"
      by simp
    from translate_batch_keys [OF this] batch show ?thesis by simp
  next
    case short
    have "translate_pass1_only loads cl text ?s0
        = (fst (translate_pass1_only loads cl text ?s0), snd (translate_pass1_only loads cl text ?s0))"
      by simp
    from translate_pass1_only_keys [OF this] short show ?thesis by simp
  next
    case full
    have "translate_3pass loads cl text ?s0
        = (fst (translate_3pass loads cl text ?s0), snd (translate_3pass loads cl text ?s0))"
      by simp
    from translate_3pass_keys [OF this] full show ?thesis by simp
  qed
qed

lemma keys_delete:
  "fst ` set (AList.delete k al) = fst ` set al - {k}"
proof -
  have "set (map fst (AList.delete k al)) = set (map fst al) - {k}"
    by (simp only: delete_keys set_removeAll)
  then show ?thesis by simp
qed

lemma load_profile_keys:
  "fst ` set (glossary (snd (load_profile (Some p) basename s)))
     = fst ` set (glossary s) \<union> (fst ` set (get_or (p_glossary_seed p) []) - {str ''_comment''})"
  by (simp add: load_profile_def Let_def keys_dict_update keys_delete)


text \<open>
  Claim C2, amended. The glossary is empty at construction. A glossary refresh, and so every
  translate operation, adds no key that starts with the reserved marker \<open>"_"\<close>: every key of
  the glossary afterwards was a key before or does not start with the marker.
  \<open>load_profile\<close> removes only the key \<open>"_comment"\<close> from the seed: the keys afterwards are
  the keys before together with the seed's keys other than \<open>"_comment"\<close>. So the invariant
  that no glossary key starts with the marker is preserved by every translate operation,
  and by \<open>load_profile\<close> when the seed has no key starting with the marker other than
  \<open>"_comment"\<close>.
\<close>

theorem glossary_reserved_keys:
  "glossary (init ctx skip lang) = []
   \<and> fst ` set (glossary (snd (maybe_update_context_glossary loads cl original translation s)))
       \<subseteq> fst ` set (glossary s) \<union> {k. \<not> startswith k (str ''_'')}
   \<and> fst ` set (glossary (snd (translate loads cl unit_text s)))
       \<subseteq> fst ` set (glossary s) \<union> {k. \<not> startswith k (str ''_'')}
   \<and> fst ` set (glossary (snd (load_profile (Some p) basename s)))
       = fst ` set (glossary s) \<union> (fst ` set (get_or (p_glossary_seed p) []) - {str ''_comment''})
   \<and> glossary (snd (load_profile None basename s)) = glossary s
   \<and> ((\<forall>k \<in> fst ` set (glossary s). \<not> startswith k (str ''_'')) \<longrightarrow>
        (\<forall>k \<in> fst ` set (glossary (snd (translate loads cl unit_text s))). \<not> startswith k (str ''_''))
        \<and> ((\<forall>k \<in> fst ` set (get_or (p_glossary_seed p) []).
               k = str ''_comment'' \<or> \<not> startswith k (str ''_'')) \<longrightarrow>
             (\<forall>k \<in> fst ` set (glossary (snd (load_profile (Some p) basename s))).
               \<not> startswith k (str ''_''))))"
proof -
  have a: "glossary (init ctx skip lang) = []" by (simp add: init_def)
  have b: "fst ` set (glossary (snd (maybe_update_context_glossary loads cl original translation s)))
       \<subseteq> fst ` set (glossary s) \<union> {k. \<not> startswith k (str ''_'')}"
    by (rule maybe_update_keys [OF surjective_pairing])
  have c: "fst ` set (glossary (snd (translate loads cl unit_text s)))
       \<subseteq> fst ` set (glossary s) \<union> {k. \<not> startswith k (str ''_'')}"
    by (rule translate_keys)
  have d: "fst ` set (glossary (snd (load_profile (Some p) basename s)))
       = fst ` set (glossary s) \<union> (fst ` set (get_or (p_glossary_seed p) []) - {str ''_comment''})"
    by (rule load_profile_keys)
  have e: "glossary (snd (load_profile None basename s)) = glossary s"
    by (simp add: load_profile_def)
  have f: "(\<forall>k \<in> fst ` set (glossary s). \<not> startswith k (str ''_'')) \<longrightarrow>
        (\<forall>k \<in> fst ` set (glossary (snd (translate loads cl unit_text s))). \<not> startswith k (str ''_''))
        \<and> ((\<forall>k \<in> fst ` set (get_or (p_glossary_seed p) []).
               k = str ''_comment'' \<or> \<not> startswith k (str ''_'')) \<longrightarrow>
             (\<forall>k \<in> fst ` set (glossary (snd (load_profile (Some p) basename s))).
               \<not> startswith k (str ''_'')))"
    using c unfolding d by blast
  from a b c d e f show ?thesis by (intro conjI)
qed

lemmas glossary_defs = translate_def translate_pass1_only_def pass1_def api_call_always is_batch_def
  merge_response_def unfence_def valid_terms_def dict_update_def parsed_def terms_json_def
  due_def seeded_def no_review_def seed_profile_def load_profile_def get_or_def

lemma refresh_example:
  "glossary (snd (translate (parsed terms_json) (always (str ''J'')) [65] seeded))
     = [(str ''a'', str ''b''), (str ''k'', str ''v'')]"
  by (simp add: glossary_defs init_defs refresh_defs string_defs Let_def)

lemma load_example:
  "glossary (snd (load_profile
      (Some (seed_profile [(str ''_comment'', str ''c''), (str ''b'', str ''d'')])) [] seeded))
     = [(str ''a'', str ''b''), (str ''b'', str ''d'')]"
  by (simp add: glossary_defs init_defs string_defs Let_def)

theorem glossary_reserved_keys_witness:
  "glossary seeded = [(str ''a'', str ''b'')] \<and> \<not> startswith (str ''a'') (str ''_'')
   \<and> startswith (str ''_k'') (str ''_'') \<and> startswith (str ''_comment'') (str ''_'')
   \<and> \<not> startswith (str ''b'') (str ''_'')
   \<and> glossary (snd (translate (parsed terms_json) (always (str ''J'')) [65] seeded))
       = [(str ''a'', str ''b''), (str ''k'', str ''v'')]
   \<and> str ''_k'' \<notin> fst ` set (glossary
         (snd (translate (parsed terms_json) (always (str ''J'')) [65] seeded)))
   \<and> glossary (snd (load_profile
        (Some (seed_profile [(str ''_comment'', str ''c''), (str ''b'', str ''d'')])) [] seeded))
       = [(str ''a'', str ''b''), (str ''b'', str ''d'')]
   \<and> str ''_comment'' \<notin> fst ` set (glossary (snd (load_profile
        (Some (seed_profile [(str ''_comment'', str ''c''), (str ''b'', str ''d'')])) [] seeded)))"
proof -
  let ?p = "seed_profile [(str ''_comment'', str ''c''), (str ''b'', str ''d'')]"
  have g: "glossary seeded = [(str ''a'', str ''b'')]" by (simp add: seeded_def)
  have r: "\<not> startswith (str ''a'') (str ''_'')" "startswith (str ''_k'') (str ''_'')"
    "startswith (str ''_comment'') (str ''_'')" "\<not> startswith (str ''b'') (str ''_'')"
    by (simp_all add: string_defs)
  have h1: "\<forall>k \<in> fst ` set (glossary seeded). \<not> startswith k (str ''_'')"
    using g r(1) by simp
  have h2: "\<forall>k \<in> fst ` set (get_or (p_glossary_seed ?p) []).
      k = str ''_comment'' \<or> \<not> startswith k (str ''_'')"
    using r(4) by (simp add: seed_profile_def get_or_def)
  note T = glossary_reserved_keys [where s = seeded and loads = "parsed terms_json"
      and cl = "always (str ''J'')" and unit_text = "[65]" and p = ?p and basename = "[]"
      and ctx = False and skip = False and lang = "[]" and original = "[]"
      and translation = "[]"]
  from T h1 have c1: "\<forall>k \<in> fst ` set (glossary
      (snd (translate (parsed terms_json) (always (str ''J'')) [65] seeded))).
        \<not> startswith k (str ''_'')"
    by blast
  from T h1 h2 have c2: "\<forall>k \<in> fst ` set (glossary (snd (load_profile (Some ?p) [] seeded))).
        \<not> startswith k (str ''_'')"
    by blast
  from c1 r(2) have k1: "str ''_k'' \<notin> fst ` set (glossary
         (snd (translate (parsed terms_json) (always (str ''J'')) [65] seeded)))"
    by blast
  from c2 r(3) have k2: "str ''_comment'' \<notin> fst ` set (glossary
      (snd (load_profile (Some ?p) [] seeded)))"
    by blast
  from g r refresh_example load_example k1 k2 show ?thesis by (intro conjI)
qed

text \<open>
  The claim as stated fails for \<open>load_profile\<close>: a seed \<open>{"_comment": "c", "_note": "x", "a": "b"}\<close>
  loaded into a new translator leaves the key \<open>"_note"\<close> in the glossary.
\<close>

theorem glossary_seed_counterexample:
  "glossary (init False False []) = []
   \<and> glossary (snd (load_profile
        (Some (seed_profile [(str ''_comment'', str ''c''), (str ''_note'', str ''x''),
           (str ''a'', str ''b'')])) [] (init False False [])))
       = [(str ''_note'', str ''x''), (str ''a'', str ''b'')]
   \<and> startswith (str ''_note'') (str ''_'')"
  by (simp add: glossary_defs init_defs string_defs Let_def)

section \<open>What a refresh does, and which errors leave a unit\<close>

















section \<open>C5: malformed glossary responses\<close>










end
